theory Spec2Isabelle
  imports Main "HOL-Library.Char_ord" "HOL-Library.List_Lexorder"
begin

section \<open>JavaScript values\<close>

text \<open>
  The program of \<^verbatim>\<open>bin/worm-scan.mjs\<close> works on values that \<^verbatim>\<open>JSON.parse\<close> returned.
  A string is the list of the bytes of its UTF-8 text. A number is kept as the text that
  \<^verbatim>\<open>String()\<close> gives for it: the program never computes with a decoded number, it only
  tests it for truth, compares it with \<^verbatim>\<open>===\<close> and converts it to a string.
  An object is the list of its own properties in the order of \<^verbatim>\<open>Object.entries\<close>.
  \<open>JUndefined\<close> is what reading an absent property gives.
\<close>

datatype jsval =
    JUndefined
  | JNull
  | JBool bool
  | JNum string
  | JStr string
  | JArr "jsval list"
  | JObj "(string \<times> jsval) list"

text \<open>The only exception the modelled functions can raise.\<close>

datatype error = TypeError

definition and_then :: "error + 'a \<Rightarrow> ('a \<Rightarrow> error + 'b) \<Rightarrow> error + 'b" where
  "and_then r f = (case r of Inl e \<Rightarrow> Inl e | Inr x \<Rightarrow> f x)"

text \<open>A \<^verbatim>\<open>for (const x of xs)\<close> loop over a state; an exception in the body leaves the loop.\<close>

fun for_each :: "('a \<Rightarrow> 's \<Rightarrow> error + 's) \<Rightarrow> 'a list \<Rightarrow> 's \<Rightarrow> error + 's" where
  "for_each f [] s = Inr s"
| "for_each f (x # xs) s = (case f x s of Inl e \<Rightarrow> Inl e | Inr s' \<Rightarrow> for_each f xs s')"

text \<open>Truthiness: \<^verbatim>\<open>undefined\<close>, \<^verbatim>\<open>null\<close>, \<^verbatim>\<open>false\<close>, zero, \<^verbatim>\<open>NaN\<close> and the empty
  string are falsy.\<close>

fun truthy :: "jsval \<Rightarrow> bool" where
  "truthy JUndefined = False"
| "truthy JNull = False"
| "truthy (JBool b) = b"
| "truthy (JNum s) = (s \<noteq> ''0'' \<and> s \<noteq> ''NaN'')"
| "truthy (JStr s) = (s \<noteq> [])"
| "truthy (JArr xs) = True"
| "truthy (JObj kvs) = True"

text \<open>\<^verbatim>\<open>a || b\<close>\<close>

definition js_or :: "jsval \<Rightarrow> jsval \<Rightarrow> jsval" where
  "js_or a b = (if truthy a then a else b)"

fun typeof :: "jsval \<Rightarrow> string" where
  "typeof JUndefined = ''undefined''"
| "typeof JNull = ''object''"
| "typeof (JBool b) = ''boolean''"
| "typeof (JNum s) = ''number''"
| "typeof (JStr s) = ''string''"
| "typeof (JArr xs) = ''object''"
| "typeof (JObj kvs) = ''object''"

fun isArray :: "jsval \<Rightarrow> bool" where
  "isArray (JArr xs) = True"
| "isArray v = False"

text \<open>The elements of an array, for \<^verbatim>\<open>for (const v of arr)\<close>, \<^verbatim>\<open>arr.length\<close> and
  \<^verbatim>\<open>arr.every\<close>; the program reads them only behind \<^verbatim>\<open>Array.isArray\<close>.\<close>

fun elems :: "jsval \<Rightarrow> jsval list" where
  "elems (JArr xs) = xs"
| "elems v = []"

text \<open>
  \<^verbatim>\<open>obj.k\<close> for the property names the program reads (\<^verbatim>\<open>name\<close>, \<^verbatim>\<open>version\<close>,
  \<^verbatim>\<open>dependencies\<close>, \<^verbatim>\<open>ecosystem\<close>, ...): none of them is a property of an array, of a
  primitive or of \<^verbatim>\<open>Object.prototype\<close>, so only an object's own property gives a value.
\<close>

fun get :: "jsval \<Rightarrow> string \<Rightarrow> jsval" where
  "get (JObj kvs) k = (case map_of kvs k of Some v \<Rightarrow> v | None \<Rightarrow> JUndefined)"
| "get v k = JUndefined"

text \<open>\<^verbatim>\<open>k in obj\<close>, for the same property names, behind the test that \<open>obj\<close> is an object.\<close>

fun has_prop :: "string \<Rightarrow> jsval \<Rightarrow> bool" where
  "has_prop k (JObj kvs) = (k \<in> fst ` set kvs)"
| "has_prop k v = False"

text \<open>Decimal text of an array index.\<close>

definition digit_char :: "nat \<Rightarrow> char" where
  "digit_char d = char_of (48 + d)"

fun string_of_nat :: "nat \<Rightarrow> string" where
  "string_of_nat n = (if n < 10 then [digit_char n] else string_of_nat (n div 10) @ [digit_char (n mod 10)])"

declare string_of_nat.simps [simp del]

text \<open>\<^verbatim>\<open>Object.entries\<close>, on an object or an array (the program calls it on nothing else).\<close>

fun entries :: "jsval \<Rightarrow> (string \<times> jsval) list" where
  "entries (JObj kvs) = kvs"
| "entries (JArr xs) = zip (map string_of_nat [0 ..< length xs]) xs"
| "entries v = []"

text \<open>
  \<^verbatim>\<open>String(v)\<close>, and the conversion inside a template literal. An array joins its
  elements with commas, \<^verbatim>\<open>null\<close> and \<^verbatim>\<open>undefined\<close> as the empty string. A decoded object
  has no callable property: with an own \<^verbatim>\<open>toString\<close> property the conversion finds
  neither a callable \<^verbatim>\<open>toString\<close> nor a \<^verbatim>\<open>valueOf\<close> that returns a primitive and raises
  TypeError; without one \<^verbatim>\<open>Object.prototype.toString\<close> answers.
\<close>

fun join_strings :: "(error + string) list \<Rightarrow> error + string" where
  "join_strings [] = Inr []"
| "join_strings [r] = r"
| "join_strings (r # rs) =
     (case r of Inl e \<Rightarrow> Inl e
      | Inr s \<Rightarrow> (case join_strings rs of Inl e \<Rightarrow> Inl e | Inr t \<Rightarrow> Inr (s @ '','' @ t)))"

fun js_String :: "jsval \<Rightarrow> error + string" where
  "js_String JUndefined = Inr ''undefined''"
| "js_String JNull = Inr ''null''"
| "js_String (JBool b) = Inr (if b then ''true'' else ''false'')"
| "js_String (JNum s) = Inr s"
| "js_String (JStr s) = Inr s"
| "js_String (JArr xs) =
     join_strings (map (\<lambda>x. if x = JNull \<or> x = JUndefined then Inr [] else js_String x) xs)"
| "js_String (JObj kvs) =
     (if ''toString'' \<in> fst ` set kvs then Inl TypeError else Inr ''[object Object]'')"

text \<open>
  \<^verbatim>\<open>a === b\<close>. Primitives are equal when they are the same value. Two objects (or arrays)
  are equal only when they are the same reference; the values compared below sit at
  different places of a decoded document, which shares nothing, so they never are.
\<close>

fun strict_equals :: "jsval \<Rightarrow> jsval \<Rightarrow> bool" where
  "strict_equals (JArr xs) b = False"
| "strict_equals (JObj kvs) b = False"
| "strict_equals a b = (a = b)"

section \<open>Strings\<close>

definition is_digit :: "char \<Rightarrow> bool" where
  "is_digit c = (c \<in> set ''0123456789'')"

definition digit_val :: "char \<Rightarrow> nat" where
  "digit_val c = of_char c - 48"

text \<open>The value of a run of decimal digits.\<close>

definition nat_of_digits :: "nat \<Rightarrow> nat list \<Rightarrow> nat" where
  "nat_of_digits base ds = foldl (\<lambda>acc d. acc * base + d) 0 ds"

text \<open>
  White space and line terminators of ECMAScript (\<^verbatim>\<open>trim\<close> and \<^verbatim>\<open>Number\<close> strip the
  same set), each as its UTF-8 bytes: TAB, LF, VT, FF, CR, SP, U+00A0, U+1680,
  U+2000 to U+200A, U+2028, U+2029, U+202F, U+205F, U+3000, U+FEFF.
\<close>

definition ws_seqs :: "string list" where
  "ws_seqs =
    [[CHR 0x09], [CHR 0x0A], [CHR 0x0B], [CHR 0x0C], [CHR 0x0D], [CHR 0x20],
     [CHR 0xC2, CHR 0xA0],
     [CHR 0xE1, CHR 0x9A, CHR 0x80],
     [CHR 0xE2, CHR 0x80, CHR 0x80], [CHR 0xE2, CHR 0x80, CHR 0x81],
     [CHR 0xE2, CHR 0x80, CHR 0x82], [CHR 0xE2, CHR 0x80, CHR 0x83],
     [CHR 0xE2, CHR 0x80, CHR 0x84], [CHR 0xE2, CHR 0x80, CHR 0x85],
     [CHR 0xE2, CHR 0x80, CHR 0x86], [CHR 0xE2, CHR 0x80, CHR 0x87],
     [CHR 0xE2, CHR 0x80, CHR 0x88], [CHR 0xE2, CHR 0x80, CHR 0x89],
     [CHR 0xE2, CHR 0x80, CHR 0x8A],
     [CHR 0xE2, CHR 0x80, CHR 0xA8], [CHR 0xE2, CHR 0x80, CHR 0xA9],
     [CHR 0xE2, CHR 0x80, CHR 0xAF],
     [CHR 0xE2, CHR 0x81, CHR 0x9F],
     [CHR 0xE3, CHR 0x80, CHR 0x80],
     [CHR 0xEF, CHR 0xBB, CHR 0xBF]]"

text \<open>The number of bytes of the white-space character a string starts with (0: none).\<close>

definition prefix_len :: "string list \<Rightarrow> string \<Rightarrow> nat" where
  "prefix_len pats s =
     (case find (\<lambda>w. w \<noteq> [] \<and> take (length w) s = w) pats of
        Some w \<Rightarrow> length w | None \<Rightarrow> 0)"

function strip_prefixes :: "string list \<Rightarrow> string \<Rightarrow> string" where
  "strip_prefixes pats s =
     (if prefix_len pats s = 0 then s else strip_prefixes pats (drop (prefix_len pats s) s))"
  by pat_completeness auto

lemma prefix_len_le: "prefix_len pats s \<le> length s"
proof (cases "find (\<lambda>w. w \<noteq> [] \<and> take (length w) s = w) pats")
  case None
  then show ?thesis by (simp add: prefix_len_def)
next
  case (Some w)
  then have "take (length w) s = w"
    by (auto simp: find_Some_iff)
  then have "length w \<le> length s"
    by (metis length_take min.cobounded1)
  with Some show ?thesis by (simp add: prefix_len_def)
qed

termination strip_prefixes
proof (relation "measure (\<lambda>(pats, s). length s)")
  show "wf (measure (\<lambda>(pats, s). length s))" by simp
next
  fix pats :: "string list" and s :: string
  assume "prefix_len pats s \<noteq> 0"
  moreover have "prefix_len pats s \<le> length s" by (rule prefix_len_le)
  ultimately show "((pats, drop (prefix_len pats s) s), (pats, s)) \<in> measure (\<lambda>(pats, s). length s)"
    by simp
qed

declare strip_prefixes.simps [simp del]

definition trimStart :: "string \<Rightarrow> string" where
  "trimStart s = strip_prefixes ws_seqs s"

definition trimEnd :: "string \<Rightarrow> string" where
  "trimEnd s = rev (strip_prefixes (map rev ws_seqs) (rev s))"

definition trim :: "string \<Rightarrow> string" where
  "trim s = trimEnd (trimStart s)"

text \<open>\<^verbatim>\<open>s.split(c)\<close> for a one-character separator: never the empty list.\<close>

fun split_on :: "char \<Rightarrow> string \<Rightarrow> string list" where
  "split_on c [] = [[]]"
| "split_on c (x # xs) =
     (if x = c then [] # split_on c xs
      else (case split_on c xs of w # ws \<Rightarrow> (x # w) # ws | [] \<Rightarrow> [[x]]))"

text \<open>\<^verbatim>\<open>s.toLowerCase()\<close> on the letters A to Z. The program only asks whether the result is
  \<^verbatim>\<open>'npm'\<close>, and no character outside A to Z has n, p or m as its lower case.\<close>

definition lower_char :: "char \<Rightarrow> char" where
  "lower_char c = (if c \<in> set ''ABCDEFGHIJKLMNOPQRSTUVWXYZ'' then char_of (of_char c + (32::nat)) else c)"

definition toLowerCase :: "string \<Rightarrow> string" where
  "toLowerCase s = map lower_char s"

section \<open>Number(string)\<close>

text \<open>
  \<^verbatim>\<open>Number(s)\<close> reads a string as a numeric literal and rounds its value to the nearest
  double. The result is \<^verbatim>\<open>NaN\<close>, an infinity, or a finite double, kept as sign, mantissa
  \<open>m\<close> and exponent \<open>p\<close>: the number \<open>m * 2 ^ p\<close>.
\<close>

datatype jsnumber = NumNaN | NumInf bool | NumFin bool nat int

fun bitlen :: "nat \<Rightarrow> nat" where
  "bitlen n = (if n = 0 then 0 else Suc (bitlen (n div 2)))"

declare bitlen.simps [simp del]

text \<open>\<open>a / b\<close> rounded to the nearest natural number, a tie to the even one.\<close>

definition round_half_even :: "nat \<Rightarrow> nat \<Rightarrow> nat" where
  "round_half_even a b =
     (let q = a div b; r = a mod b
      in if 2 * r < b then q else if b < 2 * r then q + 1 else if even q then q else q + 1)"

text \<open>
  The double nearest to \<open>a / b\<close> (round to nearest, ties to even): \<open>e\<close> is the binary
  exponent of \<open>a / b\<close>, \<open>p\<close> the exponent of the last of the 53 bits a double keeps
  (not below that of the subnormal numbers), and a result of \<open>2 ^ 1024\<close> or more is infinite.
\<close>

definition to_double :: "bool \<Rightarrow> nat \<Rightarrow> nat \<Rightarrow> jsnumber" where
  "to_double neg a b =
     (if a = 0 then NumFin neg 0 0
      else
        let e0 = int (bitlen a) - int (bitlen b);
            e = (if (if 0 \<le> e0 then b * 2 ^ nat e0 \<le> a else b \<le> a * 2 ^ nat (- e0))
                 then e0 else e0 - 1);
            p = max (e - 52) (- 1074);
            m = (if 0 \<le> p then round_half_even a (b * 2 ^ nat p)
                 else round_half_even (a * 2 ^ nat (- p)) b)
        in if 0 \<le> p \<and> 2 ^ 1024 \<le> m * 2 ^ nat p then NumInf neg else NumFin neg m p)"

text \<open>\<^verbatim>\<open>Number.isInteger\<close>, and the integer a double that passes it denotes
  (\<^verbatim>\<open>-0\<close> is 0).\<close>

fun isInteger :: "jsnumber \<Rightarrow> bool" where
  "isInteger (NumFin neg m p) = (0 \<le> p \<or> 2 ^ nat (- p) dvd m)"
| "isInteger v = False"

fun int_of :: "jsnumber \<Rightarrow> int" where
  "int_of (NumFin neg m p) =
     (let n = (if 0 \<le> p then int m * 2 ^ nat p else int m div 2 ^ nat (- p))
      in if neg then - n else n)"
| "int_of v = 0"

text \<open>The value of a digit 0-9, a-f, A-F.\<close>

definition digit_of :: "char \<Rightarrow> nat option" where
  "digit_of c =
     (let n = (of_char c :: nat)
      in if 48 \<le> n \<and> n \<le> 57 then Some (n - 48)
         else if 97 \<le> n \<and> n \<le> 102 then Some (n - 87)
         else if 65 \<le> n \<and> n \<le> 70 then Some (n - 55)
         else None)"

text \<open>The value of a non-empty string of digits of the base; \<open>None\<close> for any other string.\<close>

definition digits_value :: "nat \<Rightarrow> string \<Rightarrow> nat option" where
  "digits_value base s =
     (case those (map digit_of s) of
        Some ds \<Rightarrow>
          if ds \<noteq> [] \<and> list_all (\<lambda>d. d < base) ds then Some (nat_of_digits base ds) else None
      | None \<Rightarrow> None)"

text \<open>\<^verbatim>\<open>0x\<close>, \<^verbatim>\<open>0o\<close> and \<^verbatim>\<open>0b\<close> literals (they take no sign).\<close>

definition non_decimal :: "string \<Rightarrow> nat option" where
  "non_decimal s =
     (case s of
        c0 # c1 # r \<Rightarrow>
          if c0 = CHR ''0'' then
            (if c1 \<in> set ''xX'' then digits_value 16 r
             else if c1 \<in> set ''oO'' then digits_value 8 r
             else if c1 \<in> set ''bB'' then digits_value 2 r
             else None)
          else None
      | _ \<Rightarrow> None)"

text \<open>The exponent part that ends a decimal literal: nothing, or e or E, an optional sign
  and digits.\<close>

definition exponent_part :: "string \<Rightarrow> int option" where
  "exponent_part s =
     (case s of
        [] \<Rightarrow> Some 0
      | c # r \<Rightarrow>
          if c \<in> set ''eE'' then
            (case r of
               [] \<Rightarrow> None
             | d # r' \<Rightarrow>
                 if d = CHR ''+'' then map_option int (digits_value 10 r')
                 else if d = CHR ''-'' then map_option (\<lambda>n. - int n) (digits_value 10 r')
                 else map_option int (digits_value 10 r))
          else None)"

text \<open>
  An unsigned decimal literal: digits, an optional point with digits after it, or a point
  followed by digits, and an exponent part. The result \<open>(d, x)\<close> stands for
  \<open>d * 10 ^ x\<close>.
\<close>

definition unsigned_decimal :: "string \<Rightarrow> (nat \<times> int) option" where
  "unsigned_decimal s =
     (let i1 = takeWhile is_digit s;
          r1 = dropWhile is_digit s;
          dot = (case r1 of c # r \<Rightarrow> c = CHR ''.'' | [] \<Rightarrow> False);
          i2 = (if dot then takeWhile is_digit (tl r1) else []);
          r2 = (if dot then dropWhile is_digit (tl r1) else r1)
      in if i1 = [] \<and> i2 = [] then None
         else (case exponent_part r2 of
                 None \<Rightarrow> None
               | Some x \<Rightarrow> Some (nat_of_digits 10 (map digit_val (i1 @ i2)), x - int (length i2))))"

definition unsigned_number :: "bool \<Rightarrow> string \<Rightarrow> jsnumber" where
  "unsigned_number neg s =
     (if s = ''Infinity'' then NumInf neg
      else (case unsigned_decimal s of
              None \<Rightarrow> NumNaN
            | Some (d, x) \<Rightarrow>
                if 0 \<le> x then to_double neg (d * 10 ^ nat x) 1
                else to_double neg d (10 ^ nat (- x))))"

definition js_Number :: "string \<Rightarrow> jsnumber" where
  "js_Number str =
     (let s = trim str
      in if s = [] then NumFin False 0 0
         else (case non_decimal s of
                 Some n \<Rightarrow> to_double False n 1
               | None \<Rightarrow>
                   (case s of
                      c # r \<Rightarrow>
                        if c = CHR ''-'' then unsigned_number True r
                        else if c = CHR ''+'' then unsigned_number False r
                        else unsigned_number False s
                    | [] \<Rightarrow> NumNaN)))"

section \<open>parseSemver and cmpVer\<close>

text \<open>
  The three fields are doubles that passed \<^verbatim>\<open>Number.isInteger\<close>; each is kept as the integer
  it denotes. On such doubles \<^verbatim>\<open>!==\<close> is inequality of the integers, and a difference has
  the sign of the integers' difference. The difference itself is the double nearest to the
  integers' difference: \<open>abs_diff\<close> below, for the test of \<open>scan\<close>.
\<close>

record semver =
  major :: int
  minor :: int
  patch :: int

text \<open>\<^verbatim>\<open>s.replace(/^v/, '')\<close>\<close>

definition replace_v :: "string \<Rightarrow> string" where
  "replace_v s = (case s of c # r \<Rightarrow> if c = CHR ''v'' then r else s | [] \<Rightarrow> s)"

text \<open>
  \<^verbatim>\<open>
  function parseSemver(v) {
    if (typeof v !== 'string') return null;
    const s = v.trim().replace(/^v/, '');
    const [maj, min, rest] = s.split('.');
    if (maj === undefined || min === undefined || rest === undefined) return null;
    const patchStr = String(rest).split('-')[0];
    const M = Number(maj), m = Number(min), p = Number(patchStr);
    if (!Number.isInteger(M) || !Number.isInteger(m) || !Number.isInteger(p)) return null;
    return { major: M, minor: m, patch: p };
  }
  \<close>
\<close>

definition parseSemver :: "jsval \<Rightarrow> semver option" where
  "parseSemver v =
     (case v of
        JStr str \<Rightarrow>
          (let s = replace_v (trim str)
           in case split_on CHR ''.'' s of
                maj # min' # rest # others \<Rightarrow>
                  (case split_on CHR ''-'' rest of
                     patchStr # others' \<Rightarrow>
                       (let M = js_Number maj; m = js_Number min'; p = js_Number patchStr
                        in if \<not> isInteger M \<or> \<not> isInteger m \<or> \<not> isInteger p then None
                           else Some \<lparr>major = int_of M, minor = int_of m, patch = int_of p\<rparr>)
                   | [] \<Rightarrow> None)
              | _ \<Rightarrow> None)
      | _ \<Rightarrow> None)"

text \<open>
  \<^verbatim>\<open>String.prototype.localeCompare\<close> belongs to the platform and depends on its locale;
  it is the parameter \<open>lc\<close> of everything that sorts.
  \<^verbatim>\<open>
  function cmpVer(a, b) {
    const pa = parseSemver(a);
    const pb = parseSemver(b);
    if (pa && pb) {
      if (pa.major !== pb.major) return pa.major - pb.major;
      if (pa.minor !== pb.minor) return pa.minor - pb.minor;
      return pa.patch - pb.patch;
    }
    if (pa && !pb) return -1;
    if (!pa && pb) return 1;
    return String(a).localeCompare(String(b));
  }
  \<close>
\<close>

definition cmpVer :: "(string \<Rightarrow> string \<Rightarrow> int) \<Rightarrow> jsval \<Rightarrow> jsval \<Rightarrow> error + int" where
  "cmpVer lc a b =
     (case (parseSemver a, parseSemver b) of
        (Some pa, Some pb) \<Rightarrow>
          Inr (if major pa \<noteq> major pb then major pa - major pb
               else if minor pa \<noteq> minor pb then minor pa - minor pb
               else patch pa - patch pb)
      | (Some pa, None) \<Rightarrow> Inr (- 1)
      | (None, Some pb) \<Rightarrow> Inr 1
      | (None, None) \<Rightarrow>
          and_then (js_String a) (\<lambda>sa. and_then (js_String b) (\<lambda>sb. Inr (lc sa sb))))"

section \<open>Array.prototype.sort\<close>

text \<open>
  ECMAScript leaves the algorithm of \<^verbatim>\<open>sort\<close> to the implementation: the sort is stable,
  and an exception of the comparator leaves it. It is modelled as the stable insertion
  sort that takes the elements from left to right and calls the comparator with the new
  element first.
\<close>

fun insert_sorted :: "('a \<Rightarrow> 'a \<Rightarrow> error + int) \<Rightarrow> 'a \<Rightarrow> 'a list \<Rightarrow> error + 'a list" where
  "insert_sorted cmp x [] = Inr [x]"
| "insert_sorted cmp x (y # ys) =
     (case cmp x y of
        Inl e \<Rightarrow> Inl e
      | Inr c \<Rightarrow>
          if c < 0 then Inr (x # y # ys)
          else (case insert_sorted cmp x ys of Inl e \<Rightarrow> Inl e | Inr r \<Rightarrow> Inr (y # r)))"

definition js_sort :: "('a \<Rightarrow> 'a \<Rightarrow> error + int) \<Rightarrow> 'a list \<Rightarrow> error + 'a list" where
  "js_sort cmp xs = for_each (insert_sorted cmp) xs []"

text \<open>\<^verbatim>\<open>a.localeCompare(b)\<close>: a value that is not a string has no such method, and calling
  it raises TypeError; the argument is converted to a string.\<close>

definition localeCompare :: "(string \<Rightarrow> string \<Rightarrow> int) \<Rightarrow> jsval \<Rightarrow> jsval \<Rightarrow> error + int" where
  "localeCompare lc a b =
     (case a of
        JStr sa \<Rightarrow> and_then (js_String b) (\<lambda>sb. Inr (lc sa sb))
      | _ \<Rightarrow> Inl TypeError)"

section \<open>normalizeMalwareList\<close>

text \<open>
  The \<^verbatim>\<open>Map<string, Set<string>>\<close> the function builds: keys and members in insertion
  order, as \<^verbatim>\<open>Map\<close> and \<^verbatim>\<open>Set\<close> iterate them.
\<close>

type_synonym advisory = "(string \<times> string list) list"

text \<open>\<^verbatim>\<open>if (!map.has(n)) map.set(n, new Set()); map.get(n).add(v);\<close>\<close>

fun add_version :: "string \<Rightarrow> string \<Rightarrow> advisory \<Rightarrow> advisory" where
  "add_version n v [] = [(n, [v])]"
| "add_version n v ((k, vs) # m) =
     (if k = n then (k, if v \<in> set vs then vs else vs @ [v]) # m
      else (k, vs) # add_version n v m)"

text \<open>
  \<^verbatim>\<open>
  const add = (name, version) => {
    if (!name || !version) return;
    const n = String(name);
    const v = String(version);
    if (!map.has(n)) map.set(n, new Set());
    map.get(n).add(v);
  };
  const addMany = (name, arr) => {
    if (!name || !Array.isArray(arr)) return;
    for (const v of arr) add(name, v);
  };
  \<close>
\<close>

definition add :: "jsval \<Rightarrow> jsval \<Rightarrow> advisory \<Rightarrow> error + advisory" where
  "add name version m =
     (if \<not> truthy name \<or> \<not> truthy version then Inr m
      else and_then (js_String name) (\<lambda>n.
           and_then (js_String version) (\<lambda>v. Inr (add_version n v m))))"

definition addMany :: "jsval \<Rightarrow> jsval \<Rightarrow> advisory \<Rightarrow> error + advisory" where
  "addMany name arr m =
     (if \<not> truthy name \<or> \<not> isArray arr then Inr m
      else for_each (\<lambda>v. add name v) (elems arr) m)"

text \<open>\<^verbatim>\<open>/\d+\.\d+\.\d+/\<close> matched at the start of a string: a run of digits can only end
  where the point follows, so each run is taken whole.\<close>

definition match_here :: "string \<Rightarrow> bool" where
  "match_here s =
     (takeWhile is_digit s \<noteq> [] \<and>
      (case dropWhile is_digit s of
         [] \<Rightarrow> False
       | c # r \<Rightarrow>
           c = CHR ''.'' \<and> takeWhile is_digit r \<noteq> [] \<and>
           (case dropWhile is_digit r of
              [] \<Rightarrow> False
            | c' # r' \<Rightarrow> c' = CHR ''.'' \<and> (case r' of [] \<Rightarrow> False | d # r'' \<Rightarrow> is_digit d))))"

text \<open>\<^verbatim>\<open>/\d+\.\d+\.\d+/.test(s)\<close>: a match at some position.\<close>

fun regex_test :: "string \<Rightarrow> bool" where
  "regex_test [] = False"
| "regex_test (c # s) = (match_here (c # s) \<or> regex_test s)"

text \<open>\<^verbatim>\<open>const isSemverish = (s) => typeof s === 'string' && /\d+\.\d+\.\d+/.test(s);\<close>\<close>

definition isSemverish :: "jsval \<Rightarrow> bool" where
  "isSemverish s = (typeof s = ''string'' \<and> (case s of JStr str \<Rightarrow> regex_test str | _ \<Rightarrow> False))"

text \<open>\<^verbatim>\<open>entry.name || entry.package || entry.package_name || entry.pkg || entry.module || null\<close>\<close>

definition entry_name :: "jsval \<Rightarrow> jsval" where
  "entry_name entry =
     js_or (get entry ''name'')
       (js_or (get entry ''package'')
          (js_or (get entry ''package_name'')
             (js_or (get entry ''pkg'')
                (js_or (get entry ''module'') JNull))))"

text \<open>
  \<^verbatim>\<open>
  const considerEntry = (entry) => {
    if (!entry || typeof entry !== 'object') return;
    if ('ecosystem' in entry && String(entry.ecosystem).toLowerCase() !== 'npm') return;
    const name = entry.name || entry.package || entry.package_name || entry.pkg || entry.module || null;
    if (name) {
      if (Array.isArray(entry.versions)) addMany(name, entry.versions);
      if (Array.isArray(entry.affected_versions)) addMany(name, entry.affected_versions);
      if (Array.isArray(entry.affected)) addMany(name, entry.affected);
      if (typeof entry.version === 'string') add(name, entry.version);
      if (typeof entry.affected_version === 'string') add(name, entry.affected_version);
    }
  };
  \<close>
\<close>

definition other_ecosystem :: "jsval \<Rightarrow> error + bool" where
  "other_ecosystem entry =
     (if has_prop ''ecosystem'' entry
      then and_then (js_String (get entry ''ecosystem'')) (\<lambda>s. Inr (toLowerCase s \<noteq> ''npm''))
      else Inr False)"

definition considerEntry :: "jsval \<Rightarrow> advisory \<Rightarrow> error + advisory" where
  "considerEntry entry m =
     (if \<not> truthy entry \<or> typeof entry \<noteq> ''object'' then Inr m
      else and_then (other_ecosystem entry) (\<lambda>skip.
        if skip then Inr m
        else
          let name = entry_name entry
          in if truthy name then
               and_then (if isArray (get entry ''versions'')
                         then addMany name (get entry ''versions'') m else Inr m) (\<lambda>m1.
               and_then (if isArray (get entry ''affected_versions'')
                         then addMany name (get entry ''affected_versions'') m1 else Inr m1) (\<lambda>m2.
               and_then (if isArray (get entry ''affected'')
                         then addMany name (get entry ''affected'') m2 else Inr m2) (\<lambda>m3.
               and_then (if typeof (get entry ''version'') = ''string''
                         then add name (get entry ''version'') m3 else Inr m3) (\<lambda>m4.
               if typeof (get entry ''affected_version'') = ''string''
               then add name (get entry ''affected_version'') m4 else Inr m4))))
             else Inr m))"

definition container_keys :: "string list" where
  "container_keys = [''npm'', ''packages'', ''package'', ''data'', ''malware'', ''malware_predictions'']"

lemma for_each_cong [fundef_cong]:
  "xs = ys \<Longrightarrow> s = t \<Longrightarrow> (\<And>x u. x \<in> set ys \<Longrightarrow> f x u = g x u) \<Longrightarrow> for_each f xs s = for_each g ys t"
proof (induction ys arbitrary: xs s t)
  case Nil
  then show ?case by simp
next
  case (Cons y ys)
  then show ?case by (auto split: sum.splits)
qed

lemma and_then_cong [fundef_cong]:
  "r = r' \<Longrightarrow> (\<And>x. r' = Inr x \<Longrightarrow> f x = g x) \<Longrightarrow> and_then r f = and_then r' g"
  by (auto simp: and_then_def split: sum.splits)

lemma size_entries: "(k, v) \<in> set (entries obj) \<Longrightarrow> size v < size obj"
proof (cases obj)
  case (JArr xs)
  assume "(k, v) \<in> set (entries obj)"
  with JArr have "v \<in> set xs"
    by (auto dest: set_zip_rightD)
  then have "size v \<le> size_list size xs"
    by (simp add: size_list_estimation')
  with JArr show ?thesis by simp
next
  case (JObj kvs)
  assume "(k, v) \<in> set (entries obj)"
  with JObj have "(k, v) \<in> set kvs" by simp
  then have "size_prod (\<lambda>x. 0) size (k, v) \<le> size_list (size_prod (\<lambda>x. 0) size) kvs"
    by (rule size_list_estimation') simp
  with JObj show ?thesis by simp
qed simp_all

lemma size_get: "truthy (get node k) \<Longrightarrow> size (get node k) < size node"
proof (cases node)
  case (JObj kvs)
  assume t: "truthy (get node k)"
  with JObj obtain v where v: "map_of kvs k = Some v" "get node k = v"
    by (cases "map_of kvs k") auto
  then have "(k, v) \<in> set (entries node)"
    using JObj by (simp add: map_of_SomeD)
  then show ?thesis using v size_entries by metis
qed simp_all

text \<open>
  \<^verbatim>\<open>
  const walkObject = (obj) => {
    for (const [k, v] of Object.entries(obj)) {
      if (Array.isArray(v)) {
        if (v.length && v.every(isSemverish)) { addMany(k, v); continue; }
        for (const item of v) considerEntry(item);
      } else if (v && typeof v === 'object') {
        if (['npm', 'packages', 'package', 'data', 'malware', 'malware_predictions'].includes(k)) {
          walkObject(v);
        } else {
          for (const [nk, nv] of Object.entries(v)) {
            if (Array.isArray(nv) && nv.length && nv.every(isSemverish)) addMany(nk, nv);
          }
        }
      } else if (typeof v === 'string' && isSemverish(v)) {
        add(k, v);
      }
    }
  };
  \<close>
\<close>

function walkObject :: "jsval \<Rightarrow> advisory \<Rightarrow> error + advisory" where
  "walkObject obj m =
     for_each (\<lambda>(k, v) m.
        if isArray v then
          (if elems v \<noteq> [] \<and> list_all isSemverish (elems v) then addMany (JStr k) v m
           else for_each considerEntry (elems v) m)
        else if truthy v \<and> typeof v = ''object'' then
          (if k \<in> set container_keys then walkObject v m
           else for_each (\<lambda>(nk, nv) m.
                  if isArray nv \<and> elems nv \<noteq> [] \<and> list_all isSemverish (elems nv)
                  then addMany (JStr nk) nv m else Inr m) (entries v) m)
        else if typeof v = ''string'' \<and> isSemverish v then add (JStr k) v m
        else Inr m) (entries obj) m"
  by pat_completeness auto

termination walkObject
proof (relation "measure (\<lambda>(obj, m). size obj)")
  show "wf (measure (\<lambda>(obj, m). size obj))" by simp
next
  fix obj :: jsval and m :: advisory and x :: "string \<times> jsval" and u :: advisory
    and k :: string and v :: jsval
  assume "x \<in> set (entries obj)" and "(k, v) = x"
  then have "size v < size obj"
    using size_entries by metis
  then show "((v, u), (obj, m)) \<in> measure (\<lambda>(obj, m). size obj)"
    by simp
qed

declare walkObject.simps [simp del]

text \<open>
  \<^verbatim>\<open>
  if (Array.isArray(data)) {
    for (const entry of data) considerEntry(entry);
  } else if (data && typeof data === 'object') {
    walkObject(data);
  }
  return map;
  \<close>
\<close>

definition normalizeMalwareList :: "jsval \<Rightarrow> error + advisory" where
  "normalizeMalwareList data =
     (if isArray data then for_each considerEntry (elems data) []
      else if truthy data \<and> typeof data = ''object'' then walkObject data []
      else Inr [])"

section \<open>flattenPackages\<close>

text \<open>An entry of the installed list: \<^verbatim>\<open>{ name, version }\<close>, the two values as found.\<close>

record pkg =
  name :: jsval
  version :: jsval

text \<open>
  The state of the traversal is the set \<^verbatim>\<open>seen\<close> of keys and the array \<^verbatim>\<open>results\<close>.
  \<^verbatim>\<open>
  const visit = (node, inferredName) => {
    if (!node || typeof node !== 'object') return;
    const name = node.name || inferredName;
    const version = node.version;
    if (name && version) {
      const key = `${name}@${version}`;
      if (!seen.has(key)) {
        seen.add(key);
        results.push({ name, version });
      }
    }
    const deps = node.dependencies || {};
    if (deps && typeof deps === 'object') {
      for (const [depName, child] of Object.entries(deps)) visit(child, depName);
    }
  };
  \<close>
\<close>

function visit :: "jsval \<Rightarrow> jsval \<Rightarrow> string list \<times> pkg list \<Rightarrow> error + string list \<times> pkg list" where
  "visit node inferredName st =
     (if \<not> truthy node \<or> typeof node \<noteq> ''object'' then Inr st
      else
        let nm = js_or (get node ''name'') inferredName;
            ver = get node ''version''
        in and_then
             (if truthy nm \<and> truthy ver then
                and_then (js_String nm) (\<lambda>sn.
                and_then (js_String ver) (\<lambda>sv.
                  let key = sn @ ''@'' @ sv
                  in Inr (if key \<in> set (fst st) then st
                          else (fst st @ [key], snd st @ [\<lparr>name = nm, version = ver\<rparr>]))))
              else Inr st)
             (\<lambda>st1.
                let deps = js_or (get node ''dependencies'') (JObj [])
                in if truthy deps \<and> typeof deps = ''object'' then
                     for_each (\<lambda>(depName, child) s. visit child (JStr depName) s) (entries deps) st1
                   else Inr st1))"
  by pat_completeness auto

termination visit
proof (relation "measure (\<lambda>(node, inferredName, st). size node)")
  show "wf (measure (\<lambda>(node, inferredName, st). size node))" by simp
next
  fix node inferredName :: jsval and st st1 s :: "string list \<times> pkg list"
    and deps :: jsval and x :: "string \<times> jsval" and depName :: string and child :: jsval
  assume deps: "deps = js_or (get node ''dependencies'') (JObj [])"
    and x: "x \<in> set (entries deps)" "(depName, child) = x"
  from x have lt: "size child < size deps"
    using size_entries by metis
  have "deps = get node ''dependencies'' \<and> truthy (get node ''dependencies'')"
  proof (rule ccontr)
    assume "\<not> ?thesis"
    with deps have "deps = JObj []" by (auto simp: js_or_def)
    with x show False by simp
  qed
  then have "size deps < size node"
    using size_get by metis
  with lt show "((child, JStr depName, s), (node, inferredName, st))
      \<in> measure (\<lambda>(node, inferredName, st). size node)"
    by simp
qed

declare visit.simps [simp del]

text \<open>
  \<^verbatim>\<open>(a, b) => (a.name === b.name ? cmpVer(a.version, b.version) : a.name.localeCompare(b.name))\<close>
\<close>

definition cmp_pkg :: "(string \<Rightarrow> string \<Rightarrow> int) \<Rightarrow> pkg \<Rightarrow> pkg \<Rightarrow> error + int" where
  "cmp_pkg lc a b =
     (if strict_equals (name a) (name b) then cmpVer lc (version a) (version b)
      else localeCompare lc (name a) (name b))"

text \<open>
  \<^verbatim>\<open>
  function flattenPackages(tree) {
    const seen = new Set();
    const results = [];
    ...
    visit(tree, tree?.name);
    results.sort(...);
    return results;
  }
  \<close>
\<close>

definition flattenPackages :: "(string \<Rightarrow> string \<Rightarrow> int) \<Rightarrow> jsval \<Rightarrow> error + pkg list" where
  "flattenPackages lc tree =
     and_then (visit tree (get tree ''name'') ([], [])) (\<lambda>st. js_sort (cmp_pkg lc) (snd st))"

section \<open>scan\<close>

datatype level = Critical | Warning

record finding = pkg +
  level :: level
  against :: jsval

text \<open>\<^verbatim>\<open>malwareMap.get(name)\<close> and \<^verbatim>\<open>blocked.has(version)\<close>: the keys and the members are
  strings, and no other value is the same as a string.\<close>

definition map_get :: "advisory \<Rightarrow> jsval \<Rightarrow> string list option" where
  "map_get m k = (case k of JStr n \<Rightarrow> map_of m n | _ \<Rightarrow> None)"

definition set_has :: "string list \<Rightarrow> jsval \<Rightarrow> bool" where
  "set_has blocked v = (case v of JStr x \<Rightarrow> x \<in> set blocked | _ \<Rightarrow> False)"

text \<open>\<^verbatim>\<open>Math.abs(x - y)\<close> for two doubles that denote integers: the integers' difference,
  rounded to the nearest double.\<close>

definition abs_diff :: "int \<Rightarrow> int \<Rightarrow> jsnumber" where
  "abs_diff x y = to_double False (nat \<bar>x - y\<bar>) 1"

text \<open>\<^verbatim>\<open>x <= d\<close> for a number \<open>x\<close> and an integer \<open>d\<close>.\<close>

fun number_le :: "jsnumber \<Rightarrow> int \<Rightarrow> bool" where
  "number_le NumNaN d = False"
| "number_le (NumInf neg) d = neg"
| "number_le (NumFin neg m p) d =
     (let v = (if neg then - int m else int m)
      in if 0 \<le> p then v * 2 ^ nat p \<le> d else v \<le> d * 2 ^ nat (- p))"

text \<open>
  The loop over the advisory set; its result is the pair of \<^verbatim>\<open>isCritical\<close> and
  \<^verbatim>\<open>warnedAgainst\<close>. The threshold \<^verbatim>\<open>patchDistance\<close> is an integer (\<^verbatim>\<open>main\<close> passes a
  non-negative one, 1 by default).
  \<^verbatim>\<open>
  for (const bver of blocked) {
    if (bver === version) { isCritical = true; break; }
    const bv = parseSemver(bver);
    if (!bv) continue;
    if (pv.major === bv.major && pv.minor === bv.minor) {
      const delta = Math.abs(pv.patch - bv.patch);
      if (delta <= patchDistance) { warnedAgainst = bver; break; }
    }
  }
  \<close>
\<close>

fun scan_loop :: "jsval \<Rightarrow> semver \<Rightarrow> int \<Rightarrow> string list \<Rightarrow> bool \<times> jsval" where
  "scan_loop ver pv patchDistance [] = (False, JNull)"
| "scan_loop ver pv patchDistance (bver # rest) =
     (if JStr bver = ver then (True, JNull)
      else (case parseSemver (JStr bver) of
              None \<Rightarrow> scan_loop ver pv patchDistance rest
            | Some bv \<Rightarrow>
                if major pv = major bv \<and> minor pv = minor bv \<and>
                   number_le (abs_diff (patch pv) (patch bv)) patchDistance
                then (False, JStr bver)
                else scan_loop ver pv patchDistance rest))"

text \<open>
  The body of the loop over the installed packages: the findings it pushes for one package.
  \<^verbatim>\<open>
  const blocked = malwareMap.get(name);
  if (!blocked) continue;
  let isCritical = false;
  let warnedAgainst = null;
  if (blocked.has(version)) {
    isCritical = true;
  } else {
    const pv = parseSemver(version);
    if (pv) { for (const bver of blocked) ... }
  }
  if (isCritical) {
    findings.push({ level: 'critical', name, version, against: version });
  } else if (warnedAgainst) {
    findings.push({ level: 'warning', name, version, against: warnedAgainst });
  }
  \<close>
\<close>

definition scan_package :: "advisory \<Rightarrow> int \<Rightarrow> pkg \<Rightarrow> finding list" where
  "scan_package malwareMap patchDistance p =
     (case map_get malwareMap (name p) of
        None \<Rightarrow> []
      | Some blocked \<Rightarrow>
          (let r = (if set_has blocked (version p) then (True, JNull)
                    else (case parseSemver (version p) of
                            Some pv \<Rightarrow> scan_loop (version p) pv patchDistance blocked
                          | None \<Rightarrow> (False, JNull)));
               isCritical = fst r;
               warnedAgainst = snd r
           in if isCritical then
                [\<lparr>name = name p, version = version p, level = Critical, against = version p\<rparr>]
              else if truthy warnedAgainst then
                [\<lparr>name = name p, version = version p, level = Warning, against = warnedAgainst\<rparr>]
              else []))"

text \<open>
  \<^verbatim>\<open>
  findings.sort((a, b) => {
    if (a.level !== b.level) return a.level === 'critical' ? -1 : 1;
    if (a.name !== b.name) return a.name.localeCompare(b.name);
    return cmpVer(a.version, b.version);
  });
  \<close>
\<close>

definition cmp_finding :: "(string \<Rightarrow> string \<Rightarrow> int) \<Rightarrow> finding \<Rightarrow> finding \<Rightarrow> error + int" where
  "cmp_finding lc a b =
     (if level a \<noteq> level b then Inr (if level a = Critical then - 1 else 1)
      else if \<not> strict_equals (name a) (name b) then localeCompare lc (name a) (name b)
      else cmpVer lc (version a) (version b))"

definition scan :: "(string \<Rightarrow> string \<Rightarrow> int) \<Rightarrow> pkg list \<Rightarrow> advisory \<Rightarrow> int \<Rightarrow> error + finding list" where
  "scan lc installed malwareMap patchDistance =
     js_sort (cmp_finding lc) (concat (map (scan_package malwareMap patchDistance) installed))"

text \<open>A comparison of strings by their bytes, first difference first: one possible
  \<open>lc\<close>.\<close>

definition byte_compare :: "string \<Rightarrow> string \<Rightarrow> int" where
  "byte_compare a b = (if a = b then 0 else if a < b then - 1 else 1)"

section \<open>Notions of the specification\<close>



text \<open>
  An advisory version is adjacent to a parsed installed version when it parses, has the
  same major and minor, and its patch differs by at most the threshold; the difference is
  the one the program computes, \<open>abs_diff\<close>. For a threshold below \<open>2 ^ 53\<close> this is
  the plain difference of the integers (\<open>number_le_abs_diff\<close> below).
\<close>

definition adjacent :: "semver \<Rightarrow> int \<Rightarrow> string \<Rightarrow> bool" where
  "adjacent pv d bver =
     (case parseSemver (JStr bver) of
        None \<Rightarrow> False
      | Some bv \<Rightarrow>
          major pv = major bv \<and> minor pv = minor bv \<and>
          number_le (abs_diff (patch pv) (patch bv)) d)"

section \<open>Evaluation\<close>

text \<open>The defining equations, for evaluating the functions on concrete inputs by
  simplification.\<close>

lemmas str_eval = trim_def trimStart_def trimEnd_def strip_prefixes.simps prefix_len_def ws_seqs_def
  replace_v_def is_digit_def digit_val_def nat_of_digits_def toLowerCase_def lower_char_def
lemmas num_eval = js_Number_def unsigned_number_def unsigned_decimal_def exponent_part_def
  non_decimal_def digits_value_def digit_of_def to_double_def round_half_even_def bitlen.simps Let_def

lemmas norm_eval = normalizeMalwareList_def considerEntry_def other_ecosystem_def entry_name_def
  js_or_def add_def addMany_def and_then_def isSemverish_def match_here_def container_keys_def
  walkObject.simps is_digit_def toLowerCase_def lower_char_def Let_def

lemmas flatten_eval = flattenPackages_def visit.simps js_sort_def cmp_pkg_def localeCompare_def
  js_or_def and_then_def Let_def

lemmas scan_eval = scan_def scan_package_def map_get_def set_has_def js_sort_def Let_def

subsection \<open>Strings and numbers\<close>

lemma set_strip_prefixes: "set (strip_prefixes pats s) \<subseteq> set s"
proof (induction pats s rule: strip_prefixes.induct)
  case (1 pats s)
  show ?case
  proof (cases "prefix_len pats s = 0")
    case True
    then show ?thesis by (simp add: strip_prefixes.simps)
  next
    case False
    with 1 have "set (strip_prefixes pats (drop (prefix_len pats s) s)) \<subseteq> set (drop (prefix_len pats s) s)"
      by simp
    also have "\<dots> \<subseteq> set s" by (rule set_drop_subset)
    finally show ?thesis using False by (subst strip_prefixes.simps) simp
  qed
qed

lemma set_trim: "set (trim s) \<subseteq> set s"
proof -
  have "set (trimEnd (trimStart s)) \<subseteq> set (trimStart s)"
    using set_strip_prefixes [of "map rev ws_seqs" "rev (trimStart s)"] by (simp add: trimEnd_def)
  also have "\<dots> \<subseteq> set s"
    by (simp add: trimStart_def set_strip_prefixes)
  finally show ?thesis by (simp add: trim_def)
qed

lemma split_on_not_Nil: "split_on c s \<noteq> []"
  by (induction s) (auto split: list.splits)

lemma split_on_first: "split_on c s = w # ws \<Longrightarrow> c \<notin> set w"
proof (induction s arbitrary: w ws)
  case Nil
  then show ?case by simp
next
  case (Cons x xs)
  show ?case
  proof (cases "x = c")
    case True
    with Cons.prems show ?thesis by simp
  next
    case False
    obtain w' ws' where sp: "split_on c xs = w' # ws'"
      using split_on_not_Nil [of c xs] by (cases "split_on c xs") auto
    with Cons.IH have "c \<notin> set w'" by blast
    moreover from Cons.prems False sp have "w = x # w'" by simp
    ultimately show ?thesis using False by simp
  qed
qed

lemma to_double_sign: "to_double neg a b = NumFin neg' m p \<Longrightarrow> neg' = neg"
  by (auto simp: to_double_def Let_def split: if_splits)

lemma int_of_nonneg: "0 \<le> int_of (NumFin False m p)"
  by (simp add: Let_def pos_imp_zdiv_nonneg_iff)

lemma unsigned_number_nonneg: "0 \<le> int_of (unsigned_number False s)"
proof (cases "unsigned_number False s")
  case (NumFin neg m p)
  then have "neg = False"
    by (auto simp: unsigned_number_def split: if_splits option.splits dest: to_double_sign)
  with NumFin show ?thesis using int_of_nonneg by simp
qed simp_all

lemma js_Number_nonneg:
  assumes "CHR ''-'' \<notin> set s"
  shows "0 \<le> int_of (js_Number s)"
proof -
  from assms set_trim [of s] have nm: "CHR ''-'' \<notin> set (trim s)" by blast
  show ?thesis
  proof (cases "trim s")
    case Nil
    then show ?thesis by (simp add: js_Number_def)
  next
    case (Cons c r)
    with nm have c: "c \<noteq> CHR ''-''" by auto
    show ?thesis
    proof (cases "non_decimal (trim s)")
      case None
      with Cons c show ?thesis
        using unsigned_number_nonneg by (simp add: js_Number_def)
    next
      case (Some n)
      have "0 \<le> int_of (to_double False n 1)"
      proof (cases "to_double False n 1")
        case (NumFin neg m p)
        then have "neg = False" by (rule to_double_sign)
        with NumFin show ?thesis using int_of_nonneg by simp
      qed simp_all
      with Cons Some show ?thesis by (simp add: js_Number_def)
    qed
  qed
qed

lemma parseSemver_patch_nonneg: "parseSemver v = Some r \<Longrightarrow> 0 \<le> patch r"
proof -
  assume a: "parseSemver v = Some r"
  then obtain str where v: "v = JStr str"
    by (cases v) (auto simp: parseSemver_def)
  from a v obtain maj min' rest others patchStr others' where
    sp: "split_on CHR ''-'' rest = patchStr # others'" and
    r: "patch r = int_of (js_Number patchStr)"
    by (auto simp: parseSemver_def Let_def split: list.splits if_splits)
  from sp have "CHR ''-'' \<notin> set patchStr" by (rule split_on_first)
  then show ?thesis using r js_Number_nonneg by simp
qed

subsection \<open>The rounded difference\<close>

text \<open>Below \<open>2 ^ 53\<close> a natural number is a double; from \<open>2 ^ 53\<close> on its double is
  at least \<open>2 ^ 53\<close>. So the test of the rounded difference against a threshold below
  \<open>2 ^ 53\<close> is the test of the difference.\<close>

lemma bitlen_pos: "0 < n \<Longrightarrow> 0 < bitlen n"
  by (subst bitlen.simps) simp

lemma bitlen_bounds: "0 < n \<Longrightarrow> 2 ^ (bitlen n - 1) \<le> n \<and> n < 2 ^ bitlen n"
proof (induction n rule: bitlen.induct)
  case (1 n)
  show ?case
  proof (cases "n div 2 = 0")
    case True
    with 1(2) have "n = 1" by presburger
    then show ?thesis by (simp add: bitlen.simps)
  next
    case False
    then have pos: "0 < n div 2" by simp
    with 1 have IH: "2 ^ (bitlen (n div 2) - 1) \<le> n div 2" "n div 2 < 2 ^ bitlen (n div 2)"
      by simp_all
    have b: "bitlen n = Suc (bitlen (n div 2))"
      using 1(2) by (subst bitlen.simps) simp
    from bitlen_pos [OF pos] obtain k where k: "bitlen (n div 2) = Suc k"
      by (cases "bitlen (n div 2)") auto
    from IH k have "2 ^ k \<le> n div 2" "n div 2 < 2 * 2 ^ k" by simp_all
    then have "2 * 2 ^ k \<le> n" "n < 2 * (2 * 2 ^ k)" by presburger+
    with b k show ?thesis by simp
  qed
qed

lemma round_half_even_one: "round_half_even a (Suc 0) = a"
  by (simp add: round_half_even_def)

lemma round_half_even_ge: "a div b \<le> round_half_even a b"
  by (simp add: round_half_even_def Let_def)

lemma bitlen_one: "bitlen (Suc 0) = Suc 0"
  by (simp add: bitlen.simps)

lemma to_double_nat:
  assumes "0 < n" and "bitlen n = Suc j"
  shows "to_double False n 1 =
     (if 52 \<le> j
      then (if 2 ^ 1024 \<le> round_half_even n (2 ^ (j - 52)) * 2 ^ (j - 52) then NumInf False
            else NumFin False (round_half_even n (2 ^ (j - 52))) (int j - 52))
      else NumFin False (n * 2 ^ (52 - j)) (int j - 52))"
proof -
  from bitlen_bounds [OF assms(1)] assms(2) have lo: "2 ^ j \<le> n" by simp
  have e0: "int (bitlen n) - int (bitlen 1) = int j"
    using assms(2) bitlen_one by simp
  have p: "max (int j - 52) (- 1074) = int j - 52" by simp
  have c: "(if 0 \<le> int j then 1 * 2 ^ nat (int j) \<le> n else 1 \<le> n * 2 ^ nat (- int j)) = True"
    using lo by simp
  have td: "to_double False n 1 =
      (if 0 \<le> int j - 52 \<and>
          2 ^ 1024 \<le> (if 0 \<le> int j - 52 then round_half_even n (1 * 2 ^ nat (int j - 52))
                       else round_half_even (n * 2 ^ nat (- (int j - 52))) 1) * 2 ^ nat (int j - 52)
       then NumInf False
       else NumFin False (if 0 \<le> int j - 52 then round_half_even n (1 * 2 ^ nat (int j - 52))
                          else round_half_even (n * 2 ^ nat (- (int j - 52))) 1) (int j - 52))"
    using assms(1) unfolding to_double_def Let_def e0 c p by simp
  show ?thesis
  proof (cases "52 \<le> j")
    case True
    then have "0 \<le> int j - 52" "nat (int j - 52) = j - 52" by simp_all
    with True show ?thesis unfolding td by simp
  next
    case False
    then have "\<not> 0 \<le> int j - 52" "nat (- (int j - 52)) = 52 - j" by simp_all
    with False show ?thesis unfolding td by (simp add: round_half_even_one)
  qed
qed

lemma to_double_small:
  assumes "0 < n" and "n < 2 ^ 53"
  shows "\<exists>k. to_double False n 1 = NumFin False (n * 2 ^ k) (- int k)"
proof -
  from bitlen_pos [OF assms(1)] obtain j where j: "bitlen n = Suc j"
    by (cases "bitlen n") auto
  from bitlen_bounds [OF assms(1)] j have loj: "2 ^ j \<le> n" by simp
  have j52: "j \<le> 52"
  proof (rule ccontr)
    assume "\<not> j \<le> 52"
    then have "53 \<le> j" by simp
    then have "(2::nat) ^ 53 \<le> 2 ^ j" by (rule power_increasing) simp
    with loj assms(2) show False by simp
  qed
  show ?thesis
  proof (cases "j = 52")
    case True
    have "round_half_even n (2 ^ 0) = n" by (simp add: round_half_even_one)
    moreover have "\<not> 2 ^ 1024 \<le> n" using assms(2) by simp
    ultimately have "to_double False n 1 = NumFin False n 0"
      using to_double_nat [OF assms(1) j] True by simp
    then show ?thesis by (intro exI [of _ 0]) simp
  next
    case False
    with j52 have lt: "\<not> 52 \<le> j" by simp
    have e: "int j - 52 = - int (52 - j)" using j52 by simp
    from lt have "to_double False n 1 = NumFin False (n * 2 ^ (52 - j)) (int j - 52)"
      using to_double_nat [OF assms(1) j] by simp
    then have "to_double False n 1 = NumFin False (n * 2 ^ (52 - j)) (- int (52 - j))"
      by (simp only: e)
    then show ?thesis by blast
  qed
qed

lemma to_double_large:
  assumes "2 ^ 53 \<le> n"
  shows "to_double False n 1 = NumInf False \<or>
         (\<exists>m k. to_double False n 1 = NumFin False m (int k) \<and> 2 ^ 53 \<le> m * 2 ^ k)"
proof -
  from assms have pos: "0 < n" by (simp add: less_le_trans [of 0 "2 ^ 53"])
  from bitlen_bounds [OF pos] have lo: "2 ^ (bitlen n - 1) \<le> n" and hi: "n < 2 ^ bitlen n"
    by simp_all
  from bitlen_pos [OF pos] obtain j where j: "bitlen n = Suc j"
    by (cases "bitlen n") auto
  with lo have loj: "2 ^ j \<le> n" by simp
  have j53: "53 \<le> j"
  proof (rule ccontr)
    assume "\<not> 53 \<le> j"
    then have "Suc j \<le> 53" by simp
    then have "(2::nat) ^ Suc j \<le> 2 ^ 53" by (rule power_increasing) simp
    with hi j assms show False by simp
  qed
  define k where "k = j - 52"
  have k: "j = k + 52" "0 < k" using j53 by (simp_all add: k_def)
  define m where "m = round_half_even n (2 ^ k)"
  have "2 ^ 52 * 2 ^ k \<le> n" using loj k by (simp add: power_add mult.commute)
  then have "2 ^ 52 \<le> n div 2 ^ k"
    by (simp add: less_eq_div_iff_mult_less_eq)
  with round_half_even_ge [of n "2 ^ k"] have m52: "2 ^ 52 \<le> m" by (simp add: m_def)
  have "(2::nat) ^ 53 = 2 ^ 52 * 2 ^ 1" by simp
  also have "\<dots> \<le> m * 2 ^ k"
  proof (rule mult_le_mono [OF m52])
    from k(2) have "1 \<le> k" by simp
    then show "(2::nat) ^ 1 \<le> 2 ^ k" by (rule power_increasing) simp
  qed
  finally have big: "2 ^ 53 \<le> m * 2 ^ k" .
  have e: "int j - 52 = int k" using j53 by (simp add: k_def)
  from j53 have "52 \<le> j" by simp
  then have "to_double False n 1 =
      (if 2 ^ 1024 \<le> m * 2 ^ k then NumInf False else NumFin False m (int j - 52))"
    using to_double_nat [OF pos j] by (simp add: m_def k_def)
  then have "to_double False n 1 =
      (if 2 ^ 1024 \<le> m * 2 ^ k then NumInf False else NumFin False m (int k))"
    by (simp only: e)
  with big show ?thesis by auto
qed

lemma number_le_abs_diff:
  assumes "d < 2 ^ 53"
  shows "number_le (abs_diff x y) d \<longleftrightarrow> \<bar>x - y\<bar> \<le> d"
proof -
  define n where "n = nat \<bar>x - y\<bar>"
  have n: "int n = \<bar>x - y\<bar>" by (simp add: n_def)
  consider "n = 0" | "0 < n" "n < 2 ^ 53" | "2 ^ 53 \<le> n" by linarith
  then have "number_le (to_double False n 1) d \<longleftrightarrow> int n \<le> d"
  proof cases
    case 1
    then show ?thesis by (simp add: to_double_def)
  next
    case 2
    then obtain k where "to_double False n 1 = NumFin False (n * 2 ^ k) (- int k)"
      using to_double_small by blast
    then show ?thesis by (cases "k = 0") simp_all
  next
    case 3
    then have "(2::int) ^ 53 \<le> int n" by (metis of_nat_le_iff of_nat_numeral of_nat_power)
    with assms have gt: "\<not> int n \<le> d" by simp
    from to_double_large [OF 3] show ?thesis
    proof
      assume "to_double False n 1 = NumInf False"
      with gt show ?thesis by simp
    next
      assume "\<exists>m k. to_double False n 1 = NumFin False m (int k) \<and> 2 ^ 53 \<le> m * 2 ^ k"
      then obtain m k where mk: "to_double False n 1 = NumFin False m (int k)" "2 ^ 53 \<le> m * 2 ^ k"
        by blast
      from mk(2) have "(2::int) ^ 53 \<le> int (m * 2 ^ k)"
        by (metis of_nat_le_iff of_nat_numeral of_nat_power)
      with assms have "\<not> int m * 2 ^ k \<le> d" by simp
      with mk(1) gt show ?thesis by simp
    qed
  qed
  with n show ?thesis by (simp add: abs_diff_def n_def)
qed

subsection \<open>parseSemver on concrete strings\<close>

lemma parse_v123beta:
  "parseSemver (JStr ''v1.2.3-beta'') = Some \<lparr>major = 1, minor = 2, patch = 3\<rparr>"
  by (simp add: parseSemver_def num_eval str_eval)

lemma parse_12: "parseSemver (JStr ''1.2'') = None"
  by (simp add: parseSemver_def num_eval str_eval)

lemma parse_abc: "parseSemver (JStr ''abc'') = None"
  by (simp add: parseSemver_def num_eval str_eval)

lemma parse_empty: "parseSemver (JStr []) = None"
  by (simp add: parseSemver_def num_eval str_eval)

lemma parse_123: "parseSemver (JStr ''1.2.3'') = Some \<lparr>major = 1, minor = 2, patch = 3\<rparr>"
  by (simp add: parseSemver_def num_eval str_eval)

lemma parse_1100: "parseSemver (JStr ''1.10.0'') = Some \<lparr>major = 1, minor = 10, patch = 0\<rparr>"
  by (simp add: parseSemver_def num_eval str_eval)

lemma parse_latest: "parseSemver (JStr ''latest'') = None"
  by (simp add: parseSemver_def num_eval str_eval)

lemma parse_256: "parseSemver (JStr ''2.5.6'') = Some \<lparr>major = 2, minor = 5, patch = 6\<rparr>"
  by (simp add: parseSemver_def num_eval str_eval)

lemma parse_257: "parseSemver (JStr ''2.5.7'') = Some \<lparr>major = 2, minor = 5, patch = 7\<rparr>"
  by (simp add: parseSemver_def num_eval str_eval)

lemma parse_258: "parseSemver (JStr ''2.5.8'') = Some \<lparr>major = 2, minor = 5, patch = 8\<rparr>"
  by (simp add: parseSemver_def num_eval str_eval)

lemma parse_259: "parseSemver (JStr ''2.5.9'') = Some \<lparr>major = 2, minor = 5, patch = 9\<rparr>"
  by (simp add: parseSemver_def num_eval str_eval)

lemma parse_zzz: "parseSemver (JStr ''zzz'') = None"
  by (simp add: parseSemver_def num_eval str_eval)

lemma parse_v123: "parseSemver (JStr ''v1.2.3'') = Some \<lparr>major = 1, minor = 2, patch = 3\<rparr>"
  by (simp add: parseSemver_def num_eval str_eval)

lemma parse_78m9: "parseSemver (JStr ''7.8.-9'') = Some \<lparr>major = 7, minor = 8, patch = 0\<rparr>"
  by (simp add: parseSemver_def num_eval str_eval)

section \<open>The SemVer parser\<close>

text \<open>
  C2, as the code has it. \<open>parseSemver\<close> returns nothing or a record of three integers, and
  the patch field is never negative: the patch text is cut at its first \<^verbatim>\<open>-\<close>, so no
  sign reaches \<^verbatim>\<open>Number\<close>. (The major and minor fields can be negative.)
  \<^verbatim>\<open>"v1.2.3-beta"\<close> parses to 1, 2, 3;
  \<^verbatim>\<open>"1.2"\<close> and \<^verbatim>\<open>"abc"\<close> do not parse.
\<close>

theorem parseSemver_result:
  "(parseSemver (JStr v) = None \<or> (\<exists>r. parseSemver (JStr v) = Some r \<and> 0 \<le> patch r)) \<and>
   parseSemver (JStr ''v1.2.3-beta'') = Some \<lparr>major = 1, minor = 2, patch = 3\<rparr> \<and>
   parseSemver (JStr ''1.2'') = None \<and>
   parseSemver (JStr ''abc'') = None"
proof -
  have "parseSemver (JStr v) = None \<or> (\<exists>r. parseSemver (JStr v) = Some r \<and> 0 \<le> patch r)"
  proof (cases "parseSemver (JStr v)")
    case None
    then show ?thesis by simp
  next
    case (Some r)
    then have "0 \<le> patch r" by (rule parseSemver_patch_nonneg)
    with Some show ?thesis by simp
  qed
  then show ?thesis
    using parse_v123beta parse_12 parse_abc by simp
qed

theorem parseSemver_result_witness:
  "\<exists>r. parseSemver (JStr ''7.8.-9'') = Some r \<and> 0 \<le> patch r"
  using parseSemver_result [of "''7.8.-9''"] parse_78m9 by simp

text \<open>
  C2 as the specification states it asks for three non-negative fields. The code tests
  the fields with \<^verbatim>\<open>Number.isInteger\<close> only, and \<^verbatim>\<open>Number("-1")\<close> is the integer -1.
\<close>

theorem parseSemver_negative_major:
  "parseSemver (JStr ''-1.2.3'') = Some \<lparr>major = - 1, minor = 2, patch = 3\<rparr>"
  by (simp add: parseSemver_def num_eval str_eval)

section \<open>The version comparator\<close>

lemma cmpVer_strings:
  "cmpVer lc (JStr a) (JStr b) =
     Inr (case (parseSemver (JStr a), parseSemver (JStr b)) of
            (Some pa, Some pb) \<Rightarrow>
              (if major pa \<noteq> major pb then major pa - major pb
               else if minor pa \<noteq> minor pb then minor pa - minor pb
               else patch pa - patch pb)
          | (Some pa, None) \<Rightarrow> - 1
          | (None, Some pb) \<Rightarrow> 1
          | (None, None) \<Rightarrow> lc a b)"
  by (simp add: cmpVer_def and_then_def split: option.splits)

lemma byte_compare_antisym: "sgn (byte_compare x y) = - sgn (byte_compare y x)"
  by (auto simp: byte_compare_def)

lemma byte_compare_trans:
  "byte_compare x y \<le> 0 \<Longrightarrow> byte_compare y z \<le> 0 \<Longrightarrow> byte_compare x z \<le> 0"
  by (auto simp: byte_compare_def split: if_splits)

text \<open>
  C5, as the code has it. Let the platform's \<open>lc\<close> be a consistent comparator: the sign of
  \<open>lc x y\<close> is the opposite of the sign of \<open>lc y x\<close>, and \<open>lc\<close> is transitive. Then
  \<open>cmpVer\<close> is a total preorder of the strings: it returns a number for any two strings,
  the sign of \<open>cmpVer a b\<close> is the opposite of the sign of \<open>cmpVer b a\<close>, and \<open>cmpVer\<close>
  is transitive over any three strings. When both strings parse, the result is negative
  exactly when major, then minor, then patch of the first is smaller at the first field
  that differs, and zero exactly when the three fields agree; when only the first parses
  the result is negative, when only the second parses it is positive, and when neither
  parses it is \<open>lc a b\<close>, the platform's comparison. Two strings compare as equal exactly
  when both parse to the same three fields or neither parses and \<open>lc\<close> gives 0.
\<close>

theorem cmpVer_total_preorder:
  assumes anti: "\<forall>x y. sgn (lc x y) = - sgn (lc y x)"
    and trans: "\<forall>x y z. lc x y \<le> 0 \<and> lc y z \<le> 0 \<longrightarrow> lc x z \<le> 0"
  shows "\<exists>ab ba bc ac.
      cmpVer lc (JStr a) (JStr b) = Inr ab \<and> cmpVer lc (JStr b) (JStr a) = Inr ba \<and>
      cmpVer lc (JStr b) (JStr c) = Inr bc \<and> cmpVer lc (JStr a) (JStr c) = Inr ac \<and>
      sgn ab = - sgn ba \<and>
      (ab \<le> 0 \<and> bc \<le> 0 \<longrightarrow> ac \<le> 0) \<and>
      (\<forall>pa pb. parseSemver (JStr a) = Some pa \<and> parseSemver (JStr b) = Some pb \<longrightarrow>
         (ab < 0 \<longleftrightarrow> major pa < major pb \<or> major pa = major pb \<and>
            (minor pa < minor pb \<or> minor pa = minor pb \<and> patch pa < patch pb)) \<and>
         (ab = 0 \<longleftrightarrow> major pa = major pb \<and> minor pa = minor pb \<and> patch pa = patch pb)) \<and>
      (parseSemver (JStr a) \<noteq> None \<and> parseSemver (JStr b) = None \<longrightarrow> ab < 0) \<and>
      (parseSemver (JStr a) = None \<and> parseSemver (JStr b) \<noteq> None \<longrightarrow> 0 < ab) \<and>
      (parseSemver (JStr a) = None \<and> parseSemver (JStr b) = None \<longrightarrow> ab = lc a b) \<and>
      (ab = 0 \<longleftrightarrow>
         (\<exists>pa pb. parseSemver (JStr a) = Some pa \<and> parseSemver (JStr b) = Some pb \<and>
            major pa = major pb \<and> minor pa = minor pb \<and> patch pa = patch pb) \<or>
         (parseSemver (JStr a) = None \<and> parseSemver (JStr b) = None \<and> lc a b = 0))"
proof -
  obtain ab where ab: "cmpVer lc (JStr a) (JStr b) = Inr ab" by (simp add: cmpVer_strings)
  obtain ba where ba: "cmpVer lc (JStr b) (JStr a) = Inr ba" by (simp add: cmpVer_strings)
  obtain bc where bc: "cmpVer lc (JStr b) (JStr c) = Inr bc" by (simp add: cmpVer_strings)
  obtain ac where ac: "cmpVer lc (JStr a) (JStr c) = Inr ac" by (simp add: cmpVer_strings)
  have s: "sgn ab = - sgn ba"
    using ab ba anti [rule_format, of a b]
    by (auto simp: cmpVer_strings sgn_if split: option.splits if_splits)
  have t: "ab \<le> 0 \<and> bc \<le> 0 \<longrightarrow> ac \<le> 0"
  proof (cases "parseSemver (JStr a) = None \<and> parseSemver (JStr b) = None \<and> parseSemver (JStr c) = None")
    case True
    with ab bc ac trans [rule_format, of a b c] show ?thesis
      by (simp add: cmpVer_strings)
  next
    case False
    with ab bc ac show ?thesis
      by (auto simp: cmpVer_strings split: option.splits if_splits)
  qed
  have p: "\<forall>pa pb. parseSemver (JStr a) = Some pa \<and> parseSemver (JStr b) = Some pb \<longrightarrow>
         (ab < 0 \<longleftrightarrow> major pa < major pb \<or> major pa = major pb \<and>
            (minor pa < minor pb \<or> minor pa = minor pb \<and> patch pa < patch pb)) \<and>
         (ab = 0 \<longleftrightarrow> major pa = major pb \<and> minor pa = minor pb \<and> patch pa = patch pb)"
    using ab by (auto simp: cmpVer_strings split: if_splits)
  have q: "(parseSemver (JStr a) \<noteq> None \<and> parseSemver (JStr b) = None \<longrightarrow> ab < 0) \<and>
      (parseSemver (JStr a) = None \<and> parseSemver (JStr b) \<noteq> None \<longrightarrow> 0 < ab) \<and>
      (parseSemver (JStr a) = None \<and> parseSemver (JStr b) = None \<longrightarrow> ab = lc a b)"
    using ab by (auto simp: cmpVer_strings)
  have z: "ab = 0 \<longleftrightarrow>
         (\<exists>pa pb. parseSemver (JStr a) = Some pa \<and> parseSemver (JStr b) = Some pb \<and>
            major pa = major pb \<and> minor pa = minor pb \<and> patch pa = patch pb) \<or>
         (parseSemver (JStr a) = None \<and> parseSemver (JStr b) = None \<and> lc a b = 0)"
    using ab by (auto simp: cmpVer_strings split: option.splits if_splits)
  from ab ba bc ac s t p q z show ?thesis by blast
qed

theorem cmpVer_total_preorder_witness:
  "\<exists>ab ba. cmpVer byte_compare (JStr ''1.2.3'') (JStr ''1.10.0'') = Inr ab \<and>
      cmpVer byte_compare (JStr ''1.10.0'') (JStr ''1.2.3'') = Inr ba \<and>
      sgn ab = - sgn ba \<and> ab < 0"
proof -
  have e: "cmpVer byte_compare (JStr ''1.2.3'') (JStr ''1.10.0'') = Inr (- 8)"
    by (simp add: cmpVer_strings parse_123 parse_1100)
  have h1: "\<forall>x y. sgn (byte_compare x y) = - sgn (byte_compare y x)"
    using byte_compare_antisym by blast
  have h2: "\<forall>x y z. byte_compare x y \<le> 0 \<and> byte_compare y z \<le> 0 \<longrightarrow> byte_compare x z \<le> 0"
    using byte_compare_trans by blast
  from cmpVer_total_preorder [of byte_compare "''1.2.3''" "''1.10.0''" "''latest''", OF h1 h2]
  obtain ab ba where r: "cmpVer byte_compare (JStr ''1.2.3'') (JStr ''1.10.0'') = Inr ab"
      "cmpVer byte_compare (JStr ''1.10.0'') (JStr ''1.2.3'') = Inr ba" "sgn ab = - sgn ba"
    by blast
  from r(1) e have "ab < 0" by simp
  with r show ?thesis by blast
qed

text \<open>
  C5 as the specification states it makes \<open>cmpVer\<close> a total order of the version
  strings. The strings \<^verbatim>\<open>1.2.3\<close> and \<^verbatim>\<open>v1.2.3\<close> are different and compare as equal.
\<close>

theorem cmpVer_ties_distinct_strings:
  "cmpVer byte_compare (JStr ''1.2.3'') (JStr ''v1.2.3'') = Inr 0 \<and> ''1.2.3'' \<noteq> ''v1.2.3''"
  by (simp add: cmpVer_strings parse_123 parse_v123)

section \<open>The advisory normalizer\<close>

lemma for_each_append:
  "for_each f (xs @ ys) s = and_then (for_each f xs s) (for_each f ys)"
  by (induction xs arbitrary: s) (auto simp: and_then_def split: sum.splits)


lemma considerEntry_skip:
  assumes "has_prop ''ecosystem'' entry" and "js_String (get entry ''ecosystem'') = Inr s"
    and "toLowerCase s \<noteq> ''npm''"
  shows "considerEntry entry m = Inr m"
proof -
  from assms(1) obtain kvs where "entry = JObj kvs" by (cases entry) auto
  then have "truthy entry" "typeof entry = ''object''" by simp_all
  moreover from assms have "other_ecosystem entry = Inr True"
    by (simp add: other_ecosystem_def and_then_def)
  ultimately show ?thesis
    by (simp add: considerEntry_def and_then_def)
qed

text \<open>
  C6. The three shapes of the feed give the same map: the one key \<^verbatim>\<open>evil\<close>, with the one
  version \<^verbatim>\<open>1.2.3\<close>.
\<close>

theorem normalize_three_shapes:
  "normalizeMalwareList (JObj [(''evil'', JArr [JStr ''1.2.3''])]) = Inr [(''evil'', [''1.2.3''])] \<and>
   normalizeMalwareList (JArr [JObj [(''name'', JStr ''evil''), (''version'', JStr ''1.2.3'')]])
     = Inr [(''evil'', [''1.2.3''])] \<and>
   normalizeMalwareList (JArr [JObj [(''package'', JStr ''evil''),
       (''versions'', JArr [JStr ''1.2.3'']), (''ecosystem'', JStr ''npm'')]])
     = Inr [(''evil'', [''1.2.3''])]"
  by (simp add: norm_eval)

text \<open>
  C7. A record that has an \<^verbatim>\<open>ecosystem\<close> property whose text, in lower case, is not
  \<^verbatim>\<open>npm\<close> leaves the map as it is: a loop of \<open>considerEntry\<close> over an array gives the
  same map with the record as without it, and so does a top-level array. The feed of the one record x, 1.0.0 of ecosystem pypi gives the
  empty map.
\<close>

theorem ecosystem_filter:
  assumes "has_prop ''ecosystem'' entry" and "js_String (get entry ''ecosystem'') = Inr s"
    and "toLowerCase s \<noteq> ''npm''"
  shows "considerEntry entry m = Inr m \<and>
         for_each considerEntry (xs @ entry # ys) m = for_each considerEntry (xs @ ys) m \<and>
         normalizeMalwareList (JArr (xs @ entry # ys)) = normalizeMalwareList (JArr (xs @ ys)) \<and>
         normalizeMalwareList (JArr [JObj [(''name'', JStr ''x''), (''version'', JStr ''1.0.0''),
           (''ecosystem'', JStr ''pypi'')]]) = Inr []"
proof -
  have skip: "\<And>u. considerEntry entry u = Inr u"
    using assms by (rule considerEntry_skip)
  have "for_each considerEntry (entry # ys) = for_each considerEntry ys"
    by (rule ext) (simp add: skip)
  then have loop: "\<And>u. for_each considerEntry (xs @ entry # ys) u = for_each considerEntry (xs @ ys) u"
    by (simp add: for_each_append)
  then have "normalizeMalwareList (JArr (xs @ entry # ys)) = normalizeMalwareList (JArr (xs @ ys))"
    by (simp add: normalizeMalwareList_def)
  moreover have "normalizeMalwareList (JArr [JObj [(''name'', JStr ''x''), (''version'', JStr ''1.0.0''),
           (''ecosystem'', JStr ''pypi'')]]) = Inr []"
    by (simp add: norm_eval)
  ultimately show ?thesis using skip loop by simp
qed

theorem ecosystem_filter_witness:
  "considerEntry (JObj [(''name'', JStr ''x''), (''versions'', JArr [JStr ''1.0.0'']), (''ecosystem'', JStr ''PyPI'')])
     [(''evil'', [''1.2.3''])] = Inr [(''evil'', [''1.2.3''])] \<and>
   normalizeMalwareList (JArr ([JObj [(''name'', JStr ''evil''), (''version'', JStr ''1.2.3'')]] @
      JObj [(''name'', JStr ''x''), (''versions'', JArr [JStr ''1.0.0'']), (''ecosystem'', JStr ''PyPI'')] # []))
   = Inr [(''evil'', [''1.2.3''])]"
proof -
  let ?e = "JObj [(''name'', JStr ''x''), (''versions'', JArr [JStr ''1.0.0'']), (''ecosystem'', JStr ''PyPI'')]"
  have h1: "has_prop ''ecosystem'' ?e" by simp
  have h2: "js_String (get ?e ''ecosystem'') = Inr ''PyPI''" by simp
  have h3: "toLowerCase ''PyPI'' \<noteq> ''npm''" by (simp add: toLowerCase_def lower_char_def)
  have "normalizeMalwareList (JArr ([JObj [(''name'', JStr ''evil''), (''version'', JStr ''1.2.3'')]] @ []))
      = Inr [(''evil'', [''1.2.3''])]"
    by (simp add: norm_eval)
  then show ?thesis
    using ecosystem_filter [OF h1 h2 h3, of "[(''evil'', [''1.2.3''])]"
        "[JObj [(''name'', JStr ''evil''), (''version'', JStr ''1.2.3'')]]" "[]"]
    by simp
qed





text \<open>
  C4. Both functions can raise. \<open>flattenPackages\<close> raises TypeError on a tree whose root
  and dependency carry numbers as names: the comparator of the final sort calls
  \<^verbatim>\<open>localeCompare\<close> on a number. \<open>normalizeMalwareList\<close> raises TypeError on a record
  whose \<^verbatim>\<open>ecosystem\<close> is an object with an own \<^verbatim>\<open>toString\<close> property.
\<close>

theorem flatten_and_normalize_raise:
  "flattenPackages lc (JObj [(''name'', JNum ''1''), (''version'', JStr ''1.0.0''),
      (''dependencies'', JObj [(''a'', JObj [(''name'', JNum ''2''), (''version'', JStr ''1.0.0'')])])])
     = Inl TypeError \<and>
   normalizeMalwareList (JArr [JObj [(''name'', JStr ''x''), (''version'', JStr ''1.0.0''),
      (''ecosystem'', JObj [(''toString'', JNum ''1'')])]])
     = Inl TypeError"
  by (simp add: flatten_eval norm_eval)

section \<open>The dependency flattener\<close>

text \<open>
  C3. The two dependencies \<^verbatim>\<open>a@b\<close> at version \<^verbatim>\<open>c\<close> and \<^verbatim>\<open>a\<close> at version \<^verbatim>\<open>b@c\<close> are
  different pairs with the same key \<^verbatim>\<open>a@b@c\<close>; the list has only the first.
\<close>

theorem flatten_key_collision:
  "flattenPackages lc (JObj [(''dependencies'',
      JObj [(''a@b'', JObj [(''version'', JStr ''c'')]), (''a'', JObj [(''version'', JStr ''b@c'')])])])
     = Inr [\<lparr>name = JStr ''a@b'', version = JStr ''c''\<rparr>]"
  by (simp add: flatten_eval)

section \<open>The matcher\<close>

subsection \<open>The final sort keeps the findings\<close>

lemma insert_sorted_Inr:
  assumes "\<And>y. y \<in> set ys \<Longrightarrow> \<exists>c. cmp x y = Inr c"
  shows "\<exists>r. insert_sorted cmp x ys = Inr r \<and> set r = insert x (set ys)"
  using assms
proof (induction ys)
  case Nil
  then show ?case by simp
next
  case (Cons y ys)
  from Cons.prems obtain c where c: "cmp x y = Inr c" by auto
  from Cons obtain r where r: "insert_sorted cmp x ys = Inr r" "set r = insert x (set ys)"
    by auto
  show ?case
  proof (cases "c < 0")
    case True
    with c show ?thesis by auto
  next
    case False
    with c r show ?thesis by auto
  qed
qed

lemma for_each_insert_Inr:
  assumes "\<And>x y. x \<in> set xs \<union> set acc \<Longrightarrow> y \<in> set xs \<union> set acc \<Longrightarrow> \<exists>c. cmp x y = Inr c"
  shows "\<exists>r. for_each (insert_sorted cmp) xs acc = Inr r \<and> set r = set xs \<union> set acc"
  using assms
proof (induction xs arbitrary: acc)
  case Nil
  then show ?case by simp
next
  case (Cons x xs)
  have "\<And>y. y \<in> set acc \<Longrightarrow> \<exists>c. cmp x y = Inr c"
    using Cons.prems by simp
  then obtain acc' where a: "insert_sorted cmp x acc = Inr acc'" "set acc' = insert x (set acc)"
    using insert_sorted_Inr [of acc cmp x] by blast
  have "\<exists>r. for_each (insert_sorted cmp) xs acc' = Inr r \<and> set r = set xs \<union> set acc'"
  proof (rule Cons.IH)
    fix u v
    assume "u \<in> set xs \<union> set acc'" "v \<in> set xs \<union> set acc'"
    with a(2) have "u \<in> set (x # xs) \<union> set acc" "v \<in> set (x # xs) \<union> set acc" by auto
    then show "\<exists>c. cmp u v = Inr c" by (rule Cons.prems)
  qed
  with a show ?case by auto
qed

lemma js_sort_Inr:
  assumes "\<And>x y. x \<in> set xs \<Longrightarrow> y \<in> set xs \<Longrightarrow> \<exists>c. cmp x y = Inr c"
  shows "\<exists>r. js_sort cmp xs = Inr r \<and> set r = set xs"
  using for_each_insert_Inr [of xs "[]" cmp] assms by (simp add: js_sort_def)

lemma parseSemver_Some_JStr: "parseSemver v = Some pv \<Longrightarrow> \<exists>s. v = JStr s"
  by (cases v) (simp_all add: parseSemver_def)

lemma set_has_JStr: "set_has blocked v \<Longrightarrow> \<exists>s. v = JStr s"
  by (cases v) (simp_all add: set_has_def)

lemma map_get_JStr: "map_get m k = Some blocked \<Longrightarrow> \<exists>s. k = JStr s"
  by (cases k) (simp_all add: map_get_def)

lemma scan_loop_critical: "fst (scan_loop ver pv d blocked) \<Longrightarrow> set_has blocked ver"
proof (induction blocked)
  case Nil
  then show ?case by simp
next
  case (Cons bver rest)
  show ?case
  proof (cases "JStr bver = ver")
    case True
    then show ?thesis by (auto simp: set_has_def)
  next
    case False
    with Cons.prems have "fst (scan_loop ver pv d rest)"
      by (auto split: option.splits if_splits)
    then have "set_has rest ver" by (rule Cons.IH)
    then show ?thesis by (auto simp: set_has_def split: jsval.splits)
  qed
qed

lemma adjacent_nonempty: "adjacent pv d b \<Longrightarrow> b \<noteq> []"
  using parse_empty by (auto simp: adjacent_def)

lemma scan_loop_find:
  assumes "\<not> set_has blocked ver"
  shows "scan_loop ver pv d blocked =
     (False, case find (adjacent pv d) blocked of None \<Rightarrow> JNull | Some b \<Rightarrow> JStr b)"
  using assms
proof (induction blocked)
  case Nil
  then show ?case by simp
next
  case (Cons bver rest)
  from Cons.prems have ne: "JStr bver \<noteq> ver" and rest: "\<not> set_has rest ver"
    by (auto simp: set_has_def split: jsval.splits)
  from rest have IH: "scan_loop ver pv d rest =
     (False, case find (adjacent pv d) rest of None \<Rightarrow> JNull | Some b \<Rightarrow> JStr b)"
    by (rule Cons.IH)
  show ?case
  proof (cases "parseSemver (JStr bver)")
    case None
    then have "\<not> adjacent pv d bver" by (simp add: adjacent_def)
    with None ne IH show ?thesis by simp
  next
    case (Some bv)
    then have "adjacent pv d bver \<longleftrightarrow>
        major pv = major bv \<and> minor pv = minor bv \<and> number_le (abs_diff (patch pv) (patch bv)) d"
      by (simp add: adjacent_def)
    with Some ne IH show ?thesis by simp
  qed
qed

lemma find_adjacent_or:
  assumes "\<not> set_has blocked ver"
  shows "find (\<lambda>b. JStr b = ver \<or> adjacent pv d b) blocked = find (adjacent pv d) blocked"
proof (rule find_cong)
  fix b assume "b \<in> set blocked"
  with assms have "JStr b \<noteq> ver" by (auto simp: set_has_def)
  then show "(JStr b = ver \<or> adjacent pv d b) = adjacent pv d b" by simp
qed simp

lemma scan_package_set:
  assumes "map_get malwareMap (name p) = Some blocked"
  shows "set (scan_package malwareMap d p) =
     (if set_has blocked (version p)
      then {\<lparr>name = name p, version = version p, level = Critical, against = version p\<rparr>}
      else case parseSemver (version p) of
             None \<Rightarrow> {}
           | Some pv \<Rightarrow>
               (case find (\<lambda>b. JStr b = version p \<or> adjacent pv d b) blocked of
                  None \<Rightarrow> {}
                | Some bver \<Rightarrow>
                    {\<lparr>name = name p, version = version p, level = Warning, against = JStr bver\<rparr>}))"
proof (cases "set_has blocked (version p)")
  case True
  with assms show ?thesis by (simp add: scan_package_def)
next
  case False
  show ?thesis
  proof (cases "parseSemver (version p)")
    case None
    with False assms show ?thesis by (simp add: scan_package_def)
  next
    case (Some pv)
    note loop = scan_loop_find [OF False, of pv d]
    note fnd = find_adjacent_or [OF False, of pv d]
    show ?thesis
    proof (cases "find (adjacent pv d) blocked")
      case None
      with False Some assms loop fnd show ?thesis by (simp add: scan_package_def)
    next
      case (Some bver)
      then have "adjacent pv d bver" by (auto simp: find_Some_iff)
      then have "bver \<noteq> []" by (rule adjacent_nonempty)
      with False \<open>parseSemver (version p) = Some pv\<close> Some assms loop fnd show ?thesis
        by (simp add: scan_package_def)
    qed
  qed
qed

lemma scan_package_same:
  "f \<in> set (scan_package malwareMap d p) \<Longrightarrow> name f = name p \<and> version f = version p"
  by (auto simp: scan_package_def Let_def split: option.splits if_splits)

lemma scan_package_strings:
  assumes "f \<in> set (scan_package malwareMap d p)"
  shows "\<exists>n v. name f = JStr n \<and> version f = JStr v"
proof (cases "map_get malwareMap (name p)")
  case None
  with assms show ?thesis by (simp add: scan_package_def)
next
  case (Some blocked)
  then obtain n where n: "name p = JStr n" using map_get_JStr by blast
  have "\<exists>v. version p = JStr v"
  proof (cases "set_has blocked (version p)")
    case True
    then show ?thesis by (rule set_has_JStr)
  next
    case False
    show ?thesis
    proof (cases "parseSemver (version p)")
      case None
      with assms Some False show ?thesis by (simp add: scan_package_def)
    next
      case (Some pv)
      then show ?thesis by (rule parseSemver_Some_JStr)
    qed
  qed
  with n scan_package_same [OF assms] show ?thesis by auto
qed

lemma cmp_finding_Inr:
  assumes "name a = JStr na" "version a = JStr va" "name b = JStr nb" "version b = JStr vb"
  shows "\<exists>c. cmp_finding lc a b = Inr c"
  using assms by (simp add: cmp_finding_def localeCompare_def and_then_def cmpVer_strings)

lemma scan_set:
  "\<exists>fs. scan lc installed malwareMap d = Inr fs \<and>
        set fs = (\<Union>p\<in>set installed. set (scan_package malwareMap d p))"
proof -
  let ?xs = "concat (map (scan_package malwareMap d) installed)"
  have "\<exists>r. js_sort (cmp_finding lc) ?xs = Inr r \<and> set r = set ?xs"
  proof (rule js_sort_Inr)
    fix x y assume "x \<in> set ?xs" "y \<in> set ?xs"
    then obtain p q where "x \<in> set (scan_package malwareMap d p)" "y \<in> set (scan_package malwareMap d q)"
      by auto
    then obtain nx vx ny vy where "name x = JStr nx" "version x = JStr vx" "name y = JStr ny" "version y = JStr vy"
      using scan_package_strings by blast
    then show "\<exists>c. cmp_finding lc x y = Inr c" by (rule cmp_finding_Inr)
  qed
  then show ?thesis by (auto simp: scan_def)
qed

lemma scan_package_cong:
  assumes "name q = name p" and "version q = version p"
  shows "scan_package malwareMap d q = scan_package malwareMap d p"
  unfolding scan_package_def assms by (rule refl)

lemma scan_findings_of:
  assumes "p \<in> set installed"
  shows "\<exists>fs. scan lc installed malwareMap d = Inr fs \<and>
     {f \<in> set fs. name f = name p \<and> version f = version p} = set (scan_package malwareMap d p)"
proof -
  from scan_set [of lc installed malwareMap d] obtain fs where
    fs: "scan lc installed malwareMap d = Inr fs"
      "set fs = (\<Union>p\<in>set installed. set (scan_package malwareMap d p))"
    by blast
  have "{f \<in> set fs. name f = name p \<and> version f = version p} = set (scan_package malwareMap d p)"
  proof (rule set_eqI)
    fix f
    show "f \<in> {f \<in> set fs. name f = name p \<and> version f = version p} \<longleftrightarrow> f \<in> set (scan_package malwareMap d p)"
    proof
      assume "f \<in> {f \<in> set fs. name f = name p \<and> version f = version p}"
      then have m: "f \<in> set fs" and same: "name f = name p" "version f = version p" by auto
      from m fs(2) obtain q where q: "q \<in> set installed" "f \<in> set (scan_package malwareMap d q)"
        by auto
      from q(2) have "name f = name q \<and> version f = version q" by (rule scan_package_same)
      with same have "scan_package malwareMap d q = scan_package malwareMap d p"
        by (intro scan_package_cong) simp_all
      with q(2) show "f \<in> set (scan_package malwareMap d p)" by simp
    next
      assume a: "f \<in> set (scan_package malwareMap d p)"
      with assms fs(2) have "f \<in> set fs" by auto
      with scan_package_same [OF a] show "f \<in> {f \<in> set fs. name f = name p \<and> version f = version p}"
        by simp
    qed
  qed
  with fs(1) show ?thesis by blast
qed

lemma adjacent_exact:
  assumes "d < 2 ^ 53"
  shows "adjacent pv d bver \<longleftrightarrow>
     (\<exists>bv. parseSemver (JStr bver) = Some bv \<and> major pv = major bv \<and> minor pv = minor bv \<and>
           \<bar>patch pv - patch bv\<bar> \<le> d)"
  using assms by (cases "parseSemver (JStr bver)") (simp_all add: adjacent_def number_le_abs_diff)

lemma parse_big: "parseSemver (JStr ''1.2.9007199254740994'') =
    Some \<lparr>major = 1, minor = 2, patch = 9007199254740994\<rparr>"
  by (simp add: parseSemver_def num_eval str_eval)

lemma parse_121: "parseSemver (JStr ''1.2.1'') = Some \<lparr>major = 1, minor = 2, patch = 1\<rparr>"
  by (simp add: parseSemver_def num_eval str_eval)

text \<open>
  From \<open>2 ^ 53\<close> on the rounding shows: at the threshold \<open>2 ^ 53\<close> the patches
  \<open>2 ^ 53 + 2\<close> and 1 differ by \<open>2 ^ 53 + 1\<close>, the program computes \<open>2 ^ 53\<close>, and
  warns.
\<close>

lemma scan_rounded_difference:
  "scan lc [\<lparr>name = JStr ''pkg'', version = JStr ''1.2.9007199254740994''\<rparr>]
      [(''pkg'', [''1.2.1''])] 9007199254740992 =
   Inr [\<lparr>name = JStr ''pkg'', version = JStr ''1.2.9007199254740994'', level = Warning,
          against = JStr ''1.2.1''\<rparr>]"
  by (simp add: scan_eval parse_big parse_121 abs_diff_def to_double_def round_half_even_def
      bitlen.simps)

text \<open>
  C1. Let a package of the installed list have a name that is a key of the advisory map.
  Then \<open>scan\<close> returns a list, and its findings for the package are: the one critical
  finding against the package's own version when that version is a member of the advisory
  set; otherwise, when the version parses, the one warning against the first entry of the
  set that equals the version or is adjacent to it, and none when there is no such entry
  or the version does not parse. An entry is adjacent when it parses, has the same major
  and minor, and the difference of the patches, as the program computes it, is at most the
  threshold; for a threshold below \<open>2 ^ 53\<close> that is the difference of the two integers.
  With \<^verbatim>\<open>pkg@2.5.6\<close> and with \<^verbatim>\<open>pkg@2.5.8\<close>, the set \<^verbatim>\<open>{"2.5.7"}\<close> and threshold 1 the
  result is the one warning against \<^verbatim>\<open>2.5.7\<close>; with \<^verbatim>\<open>pkg@2.5.9\<close> it is empty.
\<close>

theorem scan_classification:
  assumes "p \<in> set installed" and "map_get malwareMap (name p) = Some blocked"
  shows "(\<exists>fs. scan lc installed malwareMap d = Inr fs \<and>
      {f \<in> set fs. name f = name p \<and> version f = version p} =
        (if set_has blocked (version p)
         then {\<lparr>name = name p, version = version p, level = Critical, against = version p\<rparr>}
         else case parseSemver (version p) of
                None \<Rightarrow> {}
              | Some pv \<Rightarrow>
                  (case find (\<lambda>b. JStr b = version p \<or> adjacent pv d b) blocked of
                     None \<Rightarrow> {}
                   | Some bver \<Rightarrow>
                       {\<lparr>name = name p, version = version p, level = Warning,
                          against = JStr bver\<rparr>}))) \<and>
    (d < 2 ^ 53 \<longrightarrow>
       (\<forall>pv bver. adjacent pv d bver \<longleftrightarrow>
          (\<exists>bv. parseSemver (JStr bver) = Some bv \<and> major pv = major bv \<and>
                minor pv = minor bv \<and> \<bar>patch pv - patch bv\<bar> \<le> d))) \<and>
    scan lc [\<lparr>name = JStr ''pkg'', version = JStr ''2.5.6''\<rparr>] [(''pkg'', [''2.5.7''])] 1 =
      Inr [\<lparr>name = JStr ''pkg'', version = JStr ''2.5.6'', level = Warning,
             against = JStr ''2.5.7''\<rparr>] \<and>
    scan lc [\<lparr>name = JStr ''pkg'', version = JStr ''2.5.8''\<rparr>] [(''pkg'', [''2.5.7''])] 1 =
      Inr [\<lparr>name = JStr ''pkg'', version = JStr ''2.5.8'', level = Warning,
             against = JStr ''2.5.7''\<rparr>] \<and>
    scan lc [\<lparr>name = JStr ''pkg'', version = JStr ''2.5.9''\<rparr>] [(''pkg'', [''2.5.7''])] 1 = Inr []"
proof -
  from scan_findings_of [OF assms(1), of lc malwareMap d] scan_package_set [OF assms(2), of d]
  have "\<exists>fs. scan lc installed malwareMap d = Inr fs \<and>
      {f \<in> set fs. name f = name p \<and> version f = version p} =
        (if set_has blocked (version p)
         then {\<lparr>name = name p, version = version p, level = Critical, against = version p\<rparr>}
         else case parseSemver (version p) of
                None \<Rightarrow> {}
              | Some pv \<Rightarrow>
                  (case find (\<lambda>b. JStr b = version p \<or> adjacent pv d b) blocked of
                     None \<Rightarrow> {}
                   | Some bver \<Rightarrow>
                       {\<lparr>name = name p, version = version p, level = Warning,
                          against = JStr bver\<rparr>}))"
    by simp
  moreover have "d < 2 ^ 53 \<longrightarrow>
       (\<forall>pv bver. adjacent pv d bver \<longleftrightarrow>
          (\<exists>bv. parseSemver (JStr bver) = Some bv \<and> major pv = major bv \<and>
                minor pv = minor bv \<and> \<bar>patch pv - patch bv\<bar> \<le> d))"
    using adjacent_exact [of d] by blast
  moreover have "scan lc [\<lparr>name = JStr ''pkg'', version = JStr ''2.5.6''\<rparr>] [(''pkg'', [''2.5.7''])] 1 =
      Inr [\<lparr>name = JStr ''pkg'', version = JStr ''2.5.6'', level = Warning,
             against = JStr ''2.5.7''\<rparr>]"
    by (simp add: scan_eval parse_256 parse_257 number_le_abs_diff)
  moreover have "scan lc [\<lparr>name = JStr ''pkg'', version = JStr ''2.5.8''\<rparr>] [(''pkg'', [''2.5.7''])] 1 =
      Inr [\<lparr>name = JStr ''pkg'', version = JStr ''2.5.8'', level = Warning,
             against = JStr ''2.5.7''\<rparr>]"
    by (simp add: scan_eval parse_258 parse_257 number_le_abs_diff)
  moreover have "scan lc [\<lparr>name = JStr ''pkg'', version = JStr ''2.5.9''\<rparr>] [(''pkg'', [''2.5.7''])] 1 = Inr []"
    by (simp add: scan_eval parse_259 parse_257 number_le_abs_diff)
  ultimately show ?thesis by blast
qed

theorem scan_classification_witness:
  "\<exists>fs. scan byte_compare
          [\<lparr>name = JStr ''pkg'', version = JStr ''2.5.8''\<rparr>, \<lparr>name = JStr ''other'', version = JStr ''1.2.3''\<rparr>]
          [(''pkg'', [''zzz'', ''2.5.9'', ''2.5.7''])] 1 = Inr fs \<and>
        {f \<in> set fs. name f = JStr ''pkg'' \<and> version f = JStr ''2.5.8''} =
          {\<lparr>name = JStr ''pkg'', version = JStr ''2.5.8'', level = Warning, against = JStr ''2.5.9''\<rparr>}"
proof -
  let ?p = "\<lparr>name = JStr ''pkg'', version = JStr ''2.5.8''\<rparr>"
  let ?installed = "[?p, \<lparr>name = JStr ''other'', version = JStr ''1.2.3''\<rparr>]"
  let ?m = "[(''pkg'', [''zzz'', ''2.5.9'', ''2.5.7''])]"
  have h1: "?p \<in> set ?installed" by simp
  have h2: "map_get ?m (name ?p) = Some [''zzz'', ''2.5.9'', ''2.5.7'']" by (simp add: map_get_def)
  note inst = scan_classification [OF h1 h2, of byte_compare 1]
  have small: "(1::int) < 2 ^ 53" by simp
  from inst small have ex: "\<And>pv bver. adjacent pv 1 bver \<longleftrightarrow>
          (\<exists>bv. parseSemver (JStr bver) = Some bv \<and> major pv = major bv \<and>
                minor pv = minor bv \<and> \<bar>patch pv - patch bv\<bar> \<le> 1)"
    by blast
  have a1: "\<not> adjacent \<lparr>major = 2, minor = 5, patch = 8\<rparr> 1 ''zzz''"
    by (simp add: ex parse_zzz)
  have a2: "adjacent \<lparr>major = 2, minor = 5, patch = 8\<rparr> 1 ''2.5.9''"
    by (simp add: ex parse_259)
  have "(if set_has [''zzz'', ''2.5.9'', ''2.5.7''] (version ?p)
         then {\<lparr>name = name ?p, version = version ?p, level = Critical, against = version ?p\<rparr>}
         else case parseSemver (version ?p) of
                None \<Rightarrow> {}
              | Some pv \<Rightarrow>
                  (case find (\<lambda>b. JStr b = version ?p \<or> adjacent pv 1 b) [''zzz'', ''2.5.9'', ''2.5.7''] of
                     None \<Rightarrow> {}
                   | Some bver \<Rightarrow>
                       {\<lparr>name = name ?p, version = version ?p, level = Warning,
                          against = JStr bver\<rparr>})) =
        {\<lparr>name = JStr ''pkg'', version = JStr ''2.5.8'', level = Warning, against = JStr ''2.5.9''\<rparr>}"
    by (simp add: set_has_def parse_258 a1 a2)
  with inst show ?thesis by simp
qed

lemma scan_package_unparsable:
  assumes "parseSemver (version p) = None"
    and "\<forall>blocked. map_get malwareMap (name p) = Some blocked \<longrightarrow> \<not> set_has blocked (version p)"
  shows "scan_package malwareMap d p = []"
proof (cases "map_get malwareMap (name p)")
  case None
  then show ?thesis by (simp add: scan_package_def)
next
  case (Some blocked)
  with assms(2) have "\<not> set_has blocked (version p)" by simp
  with Some assms(1) show ?thesis by (simp add: scan_package_def)
qed

text \<open>
  C9. A package whose version does not parse and is not a member of the advisory set of
  its name has no finding, whatever the advisory map holds.
\<close>

theorem unparsable_version_clean:
  assumes "p \<in> set installed" and "parseSemver (version p) = None"
    and "\<forall>blocked. map_get malwareMap (name p) = Some blocked \<longrightarrow> \<not> set_has blocked (version p)"
  shows "\<exists>fs. scan lc installed malwareMap d = Inr fs \<and>
           {f \<in> set fs. name f = name p \<and> version f = version p} = {}"
  using scan_findings_of [OF assms(1), of lc malwareMap d]
    scan_package_unparsable [OF assms(2) assms(3), of d]
  by simp

theorem unparsable_version_clean_witness:
  "\<exists>fs. scan byte_compare [\<lparr>name = JStr ''pkg'', version = JStr ''latest''\<rparr>]
          [(''pkg'', [''1.2.3'', ''1.10.0''])] 1 = Inr fs \<and>
        {f \<in> set fs. name f = JStr ''pkg'' \<and> version f = JStr ''latest''} = {}"
proof -
  let ?p = "\<lparr>name = JStr ''pkg'', version = JStr ''latest''\<rparr>"
  have h1: "?p \<in> set [?p]" by simp
  have h2: "parseSemver (version ?p) = None" by (simp add: parse_latest)
  have h3: "\<forall>blocked. map_get [(''pkg'', [''1.2.3'', ''1.10.0''])] (name ?p) = Some blocked
      \<longrightarrow> \<not> set_has blocked (version ?p)"
    by (simp add: map_get_def set_has_def)
  from unparsable_version_clean [OF h1 h2 h3, of byte_compare 1] show ?thesis by simp
qed

lemma scan_package_critical:
  assumes "f \<in> set (scan_package malwareMap d p)"
  shows "level f = Critical \<longleftrightarrow>
         (\<exists>blocked. map_get malwareMap (name p) = Some blocked \<and> set_has blocked (version p))"
proof (cases "map_get malwareMap (name p)")
  case None
  with assms show ?thesis by (simp add: scan_package_def)
next
  case (Some blocked)
  from assms scan_package_set [OF Some, of d] show ?thesis
    using Some by (auto split: if_splits option.splits)
qed

lemma scan_package_member:
  assumes "map_get malwareMap (name p) = Some blocked" and "set_has blocked (version p)"
  shows "\<lparr>name = name p, version = version p, level = Critical, against = version p\<rparr>
           \<in> set (scan_package malwareMap d p)"
  using scan_package_set [OF assms(1), of d] assms(2) by simp

text \<open>
  C10. \<open>scan\<close> has a critical finding for a name and a version exactly when an installed
  package has them and the version is a member of the advisory set of the name. The loop
  over the advisory set runs only when the version is not a member, and then it never
  sets \<^verbatim>\<open>isCritical\<close>.
\<close>

theorem critical_iff_member:
  "(\<exists>fs. scan lc installed malwareMap d = Inr fs \<and>
      (\<forall>n v. (\<exists>f\<in>set fs. level f = Critical \<and> name f = n \<and> version f = v) \<longleftrightarrow>
         (\<exists>p\<in>set installed. name p = n \<and> version p = v \<and>
            (\<exists>blocked. map_get malwareMap n = Some blocked \<and> set_has blocked v)))) \<and>
   (\<not> set_has blocked ver \<longrightarrow> fst (scan_loop ver pv d blocked) = False)"
proof
  from scan_set [of lc installed malwareMap d] obtain fs where
    fs: "scan lc installed malwareMap d = Inr fs"
      "set fs = (\<Union>p\<in>set installed. set (scan_package malwareMap d p))"
    by blast
  have "\<forall>n v. (\<exists>f\<in>set fs. level f = Critical \<and> name f = n \<and> version f = v) \<longleftrightarrow>
         (\<exists>p\<in>set installed. name p = n \<and> version p = v \<and>
            (\<exists>blocked. map_get malwareMap n = Some blocked \<and> set_has blocked v))"
  proof (intro allI iffI)
    fix n v
    assume "\<exists>f\<in>set fs. level f = Critical \<and> name f = n \<and> version f = v"
    then obtain f where f: "f \<in> set fs" "level f = Critical" "name f = n" "version f = v"
      by blast
    from f(1) fs(2) obtain p where p: "p \<in> set installed" "f \<in> set (scan_package malwareMap d p)"
      by auto
    from p(2) have same: "name f = name p" "version f = version p"
      using scan_package_same by blast+
    from scan_package_critical [OF p(2)] f(2)
    obtain blocked where "map_get malwareMap (name p) = Some blocked" "set_has blocked (version p)"
      by blast
    with p(1) same f(3,4)
    show "\<exists>p\<in>set installed. name p = n \<and> version p = v \<and>
            (\<exists>blocked. map_get malwareMap n = Some blocked \<and> set_has blocked v)"
      by auto
  next
    fix n v
    assume "\<exists>p\<in>set installed. name p = n \<and> version p = v \<and>
            (\<exists>blocked. map_get malwareMap n = Some blocked \<and> set_has blocked v)"
    then obtain p blocked where p: "p \<in> set installed" "name p = n" "version p = v"
        "map_get malwareMap (name p) = Some blocked" "set_has blocked (version p)"
      by blast
    let ?f = "\<lparr>name = name p, version = version p, level = Critical, against = version p\<rparr>"
    from scan_package_member [OF p(4) p(5), of d] p(1) fs(2) have "?f \<in> set fs" by auto
    moreover have "level ?f = Critical \<and> name ?f = n \<and> version ?f = v" using p(2,3) by simp
    ultimately show "\<exists>f\<in>set fs. level f = Critical \<and> name f = n \<and> version f = v"
      by blast
  qed
  with fs(1) show "\<exists>fs. scan lc installed malwareMap d = Inr fs \<and>
      (\<forall>n v. (\<exists>f\<in>set fs. level f = Critical \<and> name f = n \<and> version f = v) \<longleftrightarrow>
         (\<exists>p\<in>set installed. name p = n \<and> version p = v \<and>
            (\<exists>blocked. map_get malwareMap n = Some blocked \<and> set_has blocked v)))"
    by blast
next
  show "\<not> set_has blocked ver \<longrightarrow> fst (scan_loop ver pv d blocked) = False"
    using scan_loop_critical [of ver pv d blocked] by blast
qed

theorem critical_iff_member_witness:
  "\<exists>fs. scan byte_compare [\<lparr>name = JStr ''evil'', version = JStr ''1.2.3''\<rparr>]
          [(''evil'', [''1.2.3''])] 1 = Inr fs \<and>
        (\<exists>f\<in>set fs. level f = Critical \<and> name f = JStr ''evil'' \<and> version f = JStr ''1.2.3'')"
proof -
  let ?p = "\<lparr>name = JStr ''evil'', version = JStr ''1.2.3''\<rparr>"
  from critical_iff_member [of byte_compare "[?p]" "[(''evil'', [''1.2.3''])]" 1]
  obtain fs where fs: "scan byte_compare [?p] [(''evil'', [''1.2.3''])] 1 = Inr fs"
    "\<forall>n v. (\<exists>f\<in>set fs. level f = Critical \<and> name f = n \<and> version f = v) \<longleftrightarrow>
         (\<exists>p\<in>set [?p]. name p = n \<and> version p = v \<and>
            (\<exists>blocked. map_get [(''evil'', [''1.2.3''])] n = Some blocked \<and> set_has blocked v))"
    by blast
  have "\<exists>p\<in>set [?p]. name p = JStr ''evil'' \<and> version p = JStr ''1.2.3'' \<and>
            (\<exists>blocked. map_get [(''evil'', [''1.2.3''])] (JStr ''evil'') = Some blocked \<and>
               set_has blocked (JStr ''1.2.3''))"
    by (simp add: map_get_def set_has_def)
  with fs(2) have "\<exists>f\<in>set fs. level f = Critical \<and> name f = JStr ''evil'' \<and> version f = JStr ''1.2.3''"
    by blast
  with fs(1) show ?thesis by blast
qed

end
